theory Spec2Isabelle
  imports Complex_Main "HOL-Library.Word"
begin

unbundle bit_operations_syntax

section \<open>Data model\<close>

text \<open>
  The repository holds three programs that share their data layout:
  \<^verbatim>\<open>cbs-estimator.c\<close>, \<^verbatim>\<open>tas-estimator.c\<close> and \<^verbatim>\<open>tsn-verify.c\<close>.
  Unsigned C integers are natural numbers here and every place where the C arithmetic
  can wrap carries its modulus (\<open>2 ^ 64\<close> for \<^verbatim>\<open>uint64_t\<close>, \<open>2 ^ 32\<close> for
  \<^verbatim>\<open>uint32_t\<close>, \<open>2 ^ 16\<close> for \<^verbatim>\<open>uint16_t\<close>). Gate masks are \<^verbatim>\<open>uint8_t\<close> and
  are 8-bit words. A C array with its element count is a list, the count being the
  length. The array of the eight per-class structs is a function from the class index.
  C \<^verbatim>\<open>double\<close> values are real numbers: the model computes exactly where the code
  rounds. Of a \<^verbatim>\<open>double\<close> field the theorems C1 to C10 state only a relation to other
  fields that holds of the rounded values as of the exact ones, a comparison that the
  rounding cannot change, or a value that the doubles compute exactly.
\<close>

definition MAX_TC :: nat where
  "MAX_TC = 8"

definition MAX_GCL_ENTRIES :: nat where
  "MAX_GCL_ENTRIES = 64"

text \<open>\<^verbatim>\<open>packet_t\<close>: capture timestamp and frame length (\<^verbatim>\<open>uint16_t\<close>).\<close>

record packet =
  ts_ns :: nat
  len :: nat

text \<open>\<^verbatim>\<open>gcl_entry_t\<close>: \<^verbatim>\<open>uint8_t gate_states\<close>, \<^verbatim>\<open>uint32_t time_ns\<close>.\<close>

record gcl_entry =
  gate_states :: "8 word"
  time_ns :: nat

text \<open>\<^verbatim>\<open>gate_window_t\<close>.\<close>

record gate_window =
  start_offset_ns :: nat
  duration_ns :: nat
  w_tc :: nat

text \<open>
  The fields that all per-class structs have in common, and the per-class struct
  \<^verbatim>\<open>tc_data_t\<close> of \<^verbatim>\<open>tas-estimator.c\<close> (its interval statistics are only printed
  and are left out).
\<close>

record tc_store =
  packets :: "packet list"
  first_ts :: nat
  last_ts :: nat

record tc_data = tc_store +
  histogram :: "int list"
  histogram_size :: nat
  windows :: "gate_window list"

section \<open>\<^verbatim>\<open>tas-estimator.c\<close>: the GCL builder\<close>

text \<open>The local \<^verbatim>\<open>event_t\<close> of \<^verbatim>\<open>build_gcl\<close>; its field \<^verbatim>\<open>tc\<close> is \<open>e_tc\<close> here.\<close>

record event =
  time :: nat
  e_tc :: nat
  is_start :: bool

text \<open>First loop nest of \<^verbatim>\<open>build_gcl\<close>: two events per window, classes in order.\<close>

definition window_events :: "nat \<Rightarrow> nat \<Rightarrow> gate_window \<Rightarrow> event list" where
  "window_events cycle_ns t win =
     [\<lparr>time = start_offset_ns win, e_tc = t, is_start = True\<rparr>,
      \<lparr>time = ((start_offset_ns win + duration_ns win) mod 2 ^ 64) mod cycle_ns,
       e_tc = t, is_start = False\<rparr>]"

definition collect_events :: "(nat \<Rightarrow> tc_data) \<Rightarrow> nat \<Rightarrow> event list" where
  "collect_events tcd cycle_ns =
     concat (map (\<lambda>t. concat (map (window_events cycle_ns t) (windows (tcd t)))) [0..<MAX_TC])"

text \<open>
  The exchange sort of \<^verbatim>\<open>build_gcl\<close>. \<open>sort_pass x xs\<close> is one run of the inner loop:
  \<open>x\<close> is \<^verbatim>\<open>events[i]\<close>, \<open>xs\<close> the elements behind it; an element with a strictly smaller
  time is swapped into position \<open>i\<close> and the old \<^verbatim>\<open>events[i]\<close> takes its place.
\<close>

fun sort_pass :: "event \<Rightarrow> event list \<Rightarrow> event \<times> event list" where
  "sort_pass x [] = (x, [])"
| "sort_pass x (y # ys) =
     (if time y < time x
      then (case sort_pass y ys of (m, r) \<Rightarrow> (m, x # r))
      else (case sort_pass x ys of (m, r) \<Rightarrow> (m, y # r)))"

function sort_events :: "event list \<Rightarrow> event list" where
  "sort_events [] = []"
| "sort_events (x # xs) = (case sort_pass x xs of (m, r) \<Rightarrow> m # sort_events r)"
  by pat_completeness auto
termination
proof (relation "measure length")
  have keeps: "sort_pass y ys = (m, r) \<Longrightarrow> length r = length ys" for y ys m r
    by (induction ys arbitrary: y m r) (auto split: prod.splits if_splits)
  show "wf (measure length)" by simp
  show "(r, x # xs) \<in> measure length" if "(m, r) = sort_pass x xs" for x xs m r
    using keeps [OF that [symmetric]] by simp
qed

text \<open>The initial gate state: the second loop nest of \<^verbatim>\<open>build_gcl\<close>.\<close>

definition open_at_zero :: "nat \<Rightarrow> gate_window \<Rightarrow> bool" where
  "open_at_zero cycle_ns win \<longleftrightarrow>
     start_offset_ns win = 0 \<or> (start_offset_ns win + duration_ns win) mod 2 ^ 64 > cycle_ns"

definition initial_gates :: "(nat \<Rightarrow> tc_data) \<Rightarrow> nat \<Rightarrow> 8 word" where
  "initial_gates tcd cycle_ns =
     fold (\<lambda>t g. fold (\<lambda>win g. if open_at_zero cycle_ns win then g OR push_bit t 1 else g)
                       (windows (tcd t)) g)
          [0..<MAX_TC] 0"

text \<open>The gate update at the end of the loop body.\<close>

definition apply_event :: "event \<Rightarrow> 8 word \<Rightarrow> 8 word" where
  "apply_event e g = (if is_start e then g OR push_bit (e_tc e) 1 else g AND NOT (push_bit (e_tc e) 1))"

text \<open>
  The sweep loop. \<open>prev\<close> is \<^verbatim>\<open>events[e-1]\<close> (none at \<open>e = 0\<close>), \<open>g\<close> is
  \<^verbatim>\<open>current_gates\<close>, \<open>gcl\<close> the entries written so far. The loop stops as soon as
  \<^verbatim>\<open>estimated_gcl_size\<close> reaches \<^verbatim>\<open>MAX_GCL_ENTRIES\<close>.
\<close>

fun sweep :: "event option \<Rightarrow> event list \<Rightarrow> 8 word \<Rightarrow> nat \<Rightarrow> gcl_entry list
    \<Rightarrow> 8 word \<times> nat \<times> gcl_entry list" where
  "sweep prev [] g last_time gcl = (g, last_time, gcl)"
| "sweep prev (e # es) g last_time gcl =
     (if \<not> length gcl < MAX_GCL_ENTRIES then (g, last_time, gcl)
      else if (case prev of None \<Rightarrow> False | Some p \<Rightarrow> time e = time p)
      then sweep (Some e) es (apply_event e g) last_time gcl
      else if time e > last_time
      then sweep (Some e) es (apply_event e g) (time e)
             (gcl @ [\<lparr>gate_states = g, time_ns = (time e - last_time) mod 2 ^ 32\<rparr>])
      else sweep (Some e) es (apply_event e g) last_time gcl)"

text \<open>The entry that completes the cycle.\<close>

definition final_entry :: "nat \<Rightarrow> 8 word \<times> nat \<times> gcl_entry list \<Rightarrow> gcl_entry list" where
  "final_entry cycle_ns s =
     (case s of (g, last_time, gcl) \<Rightarrow>
        if last_time < cycle_ns \<and> length gcl < MAX_GCL_ENTRIES
        then gcl @ [\<lparr>gate_states = g, time_ns = (cycle_ns - last_time) mod 2 ^ 32\<rparr>]
        else gcl)"

text \<open>
  The in-place merge: \<open>acc\<close> is \<^verbatim>\<open>estimated_gcl[0..merged-1]\<close>, the second argument the
  entries not yet read.
\<close>

fun merge_gcl :: "gcl_entry list \<Rightarrow> gcl_entry list \<Rightarrow> gcl_entry list" where
  "merge_gcl acc [] = acc"
| "merge_gcl acc (x # xs) =
     (if acc \<noteq> [] \<and> gate_states (last acc) = gate_states x
      then merge_gcl (butlast acc @ [(last acc)\<lparr>time_ns := (time_ns (last acc) + time_ns x) mod 2 ^ 32\<rparr>]) xs
      else merge_gcl (acc @ [x]) xs)"

definition build_gcl :: "(nat \<Rightarrow> tc_data) \<Rightarrow> nat \<Rightarrow> gcl_entry list" where
  "build_gcl tcd cycle_ns =
     merge_gcl []
       (final_entry cycle_ns
          (sweep None (sort_events (collect_events tcd cycle_ns)) (initial_gates tcd cycle_ns) 0 []))"

text \<open>A zeroed per-class struct, and one that only holds windows.\<close>

definition empty_tc :: tc_data where
  "empty_tc = \<lparr>packets = [], first_ts = 0, last_ts = 0, histogram = [], histogram_size = 0,
     windows = []\<rparr>"

definition scenario4 :: "nat \<Rightarrow> tc_data" where
  "scenario4 t =
     (if t = 0 then empty_tc\<lparr>windows := [\<lparr>start_offset_ns = 0, duration_ns = 3000000, w_tc = 0\<rparr>]\<rparr>
      else if t = 1 then empty_tc\<lparr>windows := [\<lparr>start_offset_ns = 3000000, duration_ns = 7000000, w_tc = 1\<rparr>]\<rparr>
      else empty_tc)"

text \<open>
  The distinct non-zero event times: each entry written by the sweep loop ends at one of them.
\<close>

definition boundary_times :: "(nat \<Rightarrow> tc_data) \<Rightarrow> nat \<Rightarrow> nat list" where
  "boundary_times tcd cycle_ns =
     remdups (filter (\<lambda>t. 0 < t) (map time (collect_events tcd cycle_ns)))"

text \<open>
  Well-formed input of \<^verbatim>\<open>build_gcl\<close>: at most 16 windows per class (the size of
  \<^verbatim>\<open>windows[16]\<close>), each starting inside the cycle.
\<close>

definition windows_in_cycle :: "(nat \<Rightarrow> tc_data) \<Rightarrow> nat \<Rightarrow> bool" where
  "windows_in_cycle tcd cycle_ns \<longleftrightarrow>
     list_all (\<lambda>t. length (windows (tcd t)) \<le> 16 \<and>
                   list_all (\<lambda>w. start_offset_ns w < cycle_ns) (windows (tcd t))) [0..<MAX_TC]"

text \<open>
  Two classes with 16 windows each, 10 ns long and 10 ns apart, in a cycle of 1000 ns:
  64 distinct non-zero event times, the last one at 640 ns.
\<close>

definition gcl_cap_input :: "nat \<Rightarrow> tc_data" where
  "gcl_cap_input t =
     (if t = 0
      then empty_tc\<lparr>windows := map (\<lambda>k. \<lparr>start_offset_ns = 10 + 20 * k, duration_ns = 10, w_tc = 0\<rparr>) [0..<16]\<rparr>
      else if t = 1
      then empty_tc\<lparr>windows := map (\<lambda>k. \<lparr>start_offset_ns = 330 + 20 * k, duration_ns = 10, w_tc = 1\<rparr>) [0..<16]\<rparr>
      else empty_tc)"

section \<open>\<^verbatim>\<open>cbs-estimator.c\<close>\<close>

definition MAX_PACKETS :: nat where
  "MAX_PACKETS = 100000"

definition MAX_BURSTS :: nat where
  "MAX_BURSTS = 10000"

definition BURST_GAP_THRESHOLD_US :: nat where
  "BURST_GAP_THRESHOLD_US = 500"

text \<open>\<^verbatim>\<open>burst_t\<close>; its packet counter \<^verbatim>\<open>packets\<close> is \<open>b_packets\<close> here.\<close>

record burst =
  start_ns :: nat
  end_ns :: nat
  bytes :: nat
  b_packets :: nat

text \<open>
  \<^verbatim>\<open>tc_analysis_t\<close>. The class tag \<^verbatim>\<open>tc\<close> that this program also keeps in each
  \<^verbatim>\<open>packet_t\<close> is written once and never read, and is left out.
\<close>

record tc_analysis = tc_store +
  bursts :: "burst list"
  total_bytes :: nat
  measured_bps :: real
  estimated_idle_slope :: real
  burst_ratio :: real
  is_shaped :: bool
  avg_burst_duration_us :: real
  avg_gap_duration_us :: real
  max_burst_bytes :: real

text \<open>The struct after \<^verbatim>\<open>memset(tc_data, 0, sizeof(tc_data))\<close>.\<close>

definition zero_tc :: tc_analysis where
  "zero_tc = \<lparr>packets = [], first_ts = 0, last_ts = 0, bursts = [], total_bytes = 0,
     measured_bps = 0, estimated_idle_slope = 0, burst_ratio = 0, is_shaped = False,
     avg_burst_duration_us = 0, avg_gap_duration_us = 0, max_burst_bytes = 0\<rparr>"

text \<open>Subtraction of two \<^verbatim>\<open>uint64_t\<close> values.\<close>

definition sub64 :: "nat \<Rightarrow> nat \<Rightarrow> nat" where
  "sub64 a b = (a + 2 ^ 64 - b) mod 2 ^ 64"

text \<open>
  The critical section of \<^verbatim>\<open>packet_handler\<close>, on the struct of the frame's class.
  \<open>ts\<close> is the timestamp the handler has computed from the capture header and
  \<open>hdr_len\<close> is \<^verbatim>\<open>hdr->len\<close>, a 32-bit length; the stored \<^verbatim>\<open>len\<close> is 16 bits wide.
\<close>

definition store_packet :: "tc_analysis \<Rightarrow> nat \<Rightarrow> nat \<Rightarrow> tc_analysis" where
  "store_packet tc ts hdr_len =
     (if length (packets tc) < MAX_PACKETS
      then tc\<lparr>packets := packets tc @ [\<lparr>ts_ns = ts, len = hdr_len mod 2 ^ 16\<rparr>],
              total_bytes := (total_bytes tc + hdr_len) mod 2 ^ 64,
              first_ts := (if first_ts tc = 0 then ts else first_ts tc),
              last_ts := ts\<rparr>
      else tc)"

text \<open>
  \<^verbatim>\<open>packet_handler\<close> for a frame that passed the VLAN filter: \<open>pcp\<close> selects the struct.
\<close>

definition packet_handler :: "(nat \<Rightarrow> tc_analysis) \<Rightarrow> nat \<Rightarrow> nat \<Rightarrow> nat \<Rightarrow> nat \<Rightarrow> tc_analysis" where
  "packet_handler tcd pcp ts hdr_len = tcd(pcp := store_packet (tcd pcp) ts hdr_len)"

text \<open>A capture: the handler's critical section run on each observation in turn.\<close>

definition capture :: "tc_analysis \<Rightarrow> (nat \<times> nat) list \<Rightarrow> tc_analysis" where
  "capture tc obs = fold (\<lambda>(ts, hdr_len) tc. store_packet tc ts hdr_len) obs tc"

text \<open>
  The loop of \<^verbatim>\<open>detect_bursts\<close>. \<open>prev_ts\<close> is \<^verbatim>\<open>packets[i-1].ts_ns\<close>, \<open>fin\<close> are
  the bursts before the one \<^verbatim>\<open>b\<close> points to, so that \<^verbatim>\<open>burst_count\<close> is
  \<open>length fin + 1\<close>. When the packets are used up, \<open>prev_ts\<close> is the timestamp of the
  last packet, which ends the last burst.
\<close>

fun burst_loop :: "nat \<Rightarrow> burst list \<Rightarrow> burst \<Rightarrow> packet list \<Rightarrow> burst list" where
  "burst_loop prev_ts fin b [] = fin @ [b\<lparr>end_ns := prev_ts\<rparr>]"
| "burst_loop prev_ts fin b (p # ps) =
     (if sub64 (ts_ns p) prev_ts > BURST_GAP_THRESHOLD_US * 1000 \<and> length fin + 1 < MAX_BURSTS
      then burst_loop (ts_ns p) (fin @ [b\<lparr>end_ns := prev_ts\<rparr>])
             \<lparr>start_ns = ts_ns p, end_ns = 0, bytes = len p, b_packets = 1\<rparr> ps
      else burst_loop (ts_ns p) fin
             (b\<lparr>bytes := (bytes b + len p) mod 2 ^ 32, b_packets := (b_packets b + 1) mod 2 ^ 32\<rparr>) ps)"

definition detect_bursts :: "tc_analysis \<Rightarrow> tc_analysis" where
  "detect_bursts tc =
     (case packets tc of
        p0 # p1 # ps \<Rightarrow>
          tc\<lparr>bursts := burst_loop (ts_ns p0) []
                 \<lparr>start_ns = ts_ns p0, end_ns = 0, bytes = len p0, b_packets = 1\<rparr> (p1 # ps)\<rparr>
      | _ \<Rightarrow> tc)"

text \<open>
  The loop of \<^verbatim>\<open>analyze_cbs\<close> over the bursts, with its three accumulators
  \<^verbatim>\<open>total_burst_time\<close>, \<^verbatim>\<open>total_gap_time\<close> and \<^verbatim>\<open>max_burst\<close>.
\<close>

fun burst_stats :: "real \<Rightarrow> real \<Rightarrow> real \<Rightarrow> burst list \<Rightarrow> real \<times> real \<times> real" where
  "burst_stats tb tg mb [] = (tb, tg, mb)"
| "burst_stats tb tg mb [b] =
     (tb + real (sub64 (end_ns b) (start_ns b)) / 1000, tg,
      if real (bytes b) > mb then real (bytes b) else mb)"
| "burst_stats tb tg mb (b # b' # bs) =
     burst_stats (tb + real (sub64 (end_ns b) (start_ns b)) / 1000)
       (tg + real (sub64 (start_ns b') (end_ns b)) / 1000)
       (if real (bytes b) > mb then real (bytes b) else mb) (b' # bs)"

definition total_duration_s :: "tc_analysis \<Rightarrow> real" where
  "total_duration_s tc = real (sub64 (last_ts tc) (first_ts tc)) / 1000000000"

definition analyze_cbs :: "tc_analysis \<Rightarrow> tc_analysis" where
  "analyze_cbs tc =
     (if length (packets tc) < 10 \<or> length (bursts tc) < 1 then tc
      else if total_duration_s tc \<le> 0 then tc
      else
        (case burst_stats 0 0 0 (bursts tc) of
           (total_burst_time, total_gap_time, max_burst) \<Rightarrow>
             let burst_count = length (bursts tc);
                 avg_burst = (if burst_count > 0 then total_burst_time / real burst_count else 0);
                 avg_gap = (if burst_count > 1 then total_gap_time / real (burst_count - 1) else 0);
                 total_time_us = total_duration_s tc * 1000000;
                 ratio = total_burst_time / total_time_us;
                 has_gaps = (avg_gap > 100);
                 regular_bursts = (burst_count > 3);
                 measured = (real (total_bytes tc) * 8) / total_duration_s tc
             in tc\<lparr>measured_bps := measured,
                    max_burst_bytes := max_burst,
                    avg_burst_duration_us := avg_burst,
                    avg_gap_duration_us := avg_gap,
                    burst_ratio := ratio,
                    is_shaped := (has_gaps \<and> regular_bursts \<and> ratio < 0.85),
                    estimated_idle_slope := measured\<rparr>))"

text \<open>
  \<^verbatim>\<open>print_results_json\<close>: the report as data, one row per printed object with the values
  handed to \<^verbatim>\<open>printf\<close>. Both loops skip a class with fewer than 10 packets.
\<close>

record tc_row =
  row_tc :: nat
  row_packets :: nat
  row_bytes :: nat
  row_measured_bps :: real
  row_bursts :: nat
  row_avg_burst_us :: real
  row_avg_gap_us :: real
  row_max_burst_bytes :: real
  row_burst_ratio :: real
  row_is_shaped :: bool
  row_estimated_idle_slope_bps :: real

record cbs_config =
  cfg_tc :: nat
  idle_slope_bps :: real
  send_slope_bps :: real
  hi_credit_bytes :: real
  lo_credit_bytes :: real
  confidence :: string

definition tc_row_of :: "nat \<Rightarrow> tc_analysis \<Rightarrow> tc_row" where
  "tc_row_of i tc =
     \<lparr>row_tc = i, row_packets = length (packets tc), row_bytes = total_bytes tc,
      row_measured_bps = measured_bps tc, row_bursts = length (bursts tc),
      row_avg_burst_us = avg_burst_duration_us tc, row_avg_gap_us = avg_gap_duration_us tc,
      row_max_burst_bytes = max_burst_bytes tc, row_burst_ratio = burst_ratio tc,
      row_is_shaped = is_shaped tc, row_estimated_idle_slope_bps = estimated_idle_slope tc\<rparr>"

definition cbs_config_of :: "real \<Rightarrow> nat \<Rightarrow> tc_analysis \<Rightarrow> cbs_config" where
  "cbs_config_of link_speed_bps i tc =
     (let idle_slope = estimated_idle_slope tc;
          send_slope = - (link_speed_bps - idle_slope);
          hi_credit = max_burst_bytes tc * 1.5;
          lo_credit = - hi_credit
      in \<lparr>cfg_tc = i, idle_slope_bps = idle_slope, send_slope_bps = send_slope,
          hi_credit_bytes = hi_credit, lo_credit_bytes = lo_credit,
          confidence = (if is_shaped tc then ''high'' else ''low'')\<rparr>)"

definition printed_classes :: "(nat \<Rightarrow> tc_analysis) \<Rightarrow> nat list" where
  "printed_classes tcd = filter (\<lambda>i. \<not> length (packets (tcd i)) < 10) [0..<MAX_TC]"

definition print_results_json :: "(nat \<Rightarrow> tc_analysis) \<Rightarrow> real \<Rightarrow> tc_row list \<times> cbs_config list" where
  "print_results_json tcd link_speed_bps =
     (map (\<lambda>i. tc_row_of i (tcd i)) (printed_classes tcd),
      map (\<lambda>i. cbs_config_of link_speed_bps i (tcd i)) (printed_classes tcd))"

text \<open>The analysis of \<^verbatim>\<open>main\<close> after the capture has ended.\<close>

definition analyze_class :: "tc_analysis \<Rightarrow> tc_analysis" where
  "analyze_class tc = (if length (packets tc) > 0 then analyze_cbs (detect_bursts tc) else tc)"

section \<open>\<^verbatim>\<open>tas-estimator.c\<close>: cycle and window detection\<close>

definition HISTOGRAM_BINS :: nat where
  "HISTOGRAM_BINS = 2000"

text \<open>The bin of a packet: its offset in the cycle, in units of \<open>bin_size\<close>.\<close>

definition phase_bin :: "nat \<Rightarrow> nat \<Rightarrow> nat \<Rightarrow> nat \<Rightarrow> packet \<Rightarrow> nat" where
  "phase_bin first cycle bin_size n_bins p =
     ((sub64 (ts_ns p) first mod cycle) div bin_size) mod n_bins"

definition count_bins :: "nat \<Rightarrow> nat \<Rightarrow> nat \<Rightarrow> nat \<Rightarrow> packet list \<Rightarrow> int list \<Rightarrow> int list" where
  "count_bins first cycle bin_size n_bins ps bins =
     fold (\<lambda>p h. h[phase_bin first cycle bin_size n_bins p :=
                      h ! phase_bin first cycle bin_size n_bins p + 1]) ps bins"

text \<open>\<^verbatim>\<open>detect_cycle_time\<close>: the candidates, the score of one class, the two loops.\<close>

definition candidate_cycles :: "nat list" where
  "candidate_cycles = [100000, 500000, 1000000, 2000000, 5000000, 10000000, 20000000,
     50000000, 100000000, 200000000, 500000000]"

definition tc_score :: "tc_data \<Rightarrow> nat \<Rightarrow> real" where
  "tc_score tc cycle =
     (let n_bins = 100;
          bin_size = cycle div n_bins;
          bins = count_bins (first_ts tc) cycle bin_size n_bins (packets tc) (replicate 100 0);
          mean = real (length (packets tc)) / real n_bins;
          variance = fold (\<lambda>b v. v + (real_of_int b - mean) * (real_of_int b - mean)) bins 0
                       / real n_bins
      in variance / (mean * mean + 0.001))"

text \<open>
  The inner loop over the classes: \<^verbatim>\<open>total_score\<close> and \<^verbatim>\<open>tc_count\<close>. A class with
  fewer than 100 packets takes the \<^verbatim>\<open>continue\<close>.
\<close>

definition candidate_score :: "(nat \<Rightarrow> tc_data) \<Rightarrow> nat \<Rightarrow> real \<times> nat" where
  "candidate_score tcd cycle =
     fold (\<lambda>t (total_score, tc_count).
             if length (packets (tcd t)) < 100 then (total_score, tc_count)
             else (total_score + tc_score (tcd t) cycle, tc_count + 1))
          [0..<MAX_TC] (0, 0)"

text \<open>The outer loop over the candidates: \<^verbatim>\<open>best_score\<close> and \<^verbatim>\<open>best_cycle\<close>.\<close>

definition best_candidate :: "(nat \<Rightarrow> tc_data) \<Rightarrow> real \<times> nat" where
  "best_candidate tcd =
     fold (\<lambda>cycle (best_score, best_cycle).
             (case candidate_score tcd cycle of
                (total_score, tc_count) \<Rightarrow>
                  if tc_count > 0 \<and> total_score / real tc_count > best_score
                  then (total_score / real tc_count, cycle)
                  else (best_score, best_cycle)))
          candidate_cycles (0, 0)"

text \<open>
  \<open>expected_cycle_ms\<close> is the operator's override, 0 when none is given; the conversion
  to \<^verbatim>\<open>uint64_t\<close> truncates.
\<close>

definition detect_cycle_time :: "(nat \<Rightarrow> tc_data) \<Rightarrow> real \<Rightarrow> nat" where
  "detect_cycle_time tcd expected_cycle_ms =
     (if expected_cycle_ms > 0 then nat \<lfloor>expected_cycle_ms * 1000000\<rfloor> mod 2 ^ 64
      else snd (best_candidate tcd))"

definition build_histogram :: "tc_data \<Rightarrow> nat \<Rightarrow> tc_data" where
  "build_histogram tc cycle_ns =
     (if length (packets tc) < 10 \<or> cycle_ns = 0 then tc
      else
        let n_bins = HISTOGRAM_BINS;
            bin_size = (if cycle_ns div n_bins = 0 then 1 else cycle_ns div n_bins);
            hsize = (if n_bins < HISTOGRAM_BINS then n_bins else HISTOGRAM_BINS)
        in tc\<lparr>histogram := count_bins (first_ts tc) cycle_ns bin_size hsize (packets tc)
                              (replicate HISTOGRAM_BINS 0),
               histogram_size := hsize\<rparr>)"

text \<open>
  \<^verbatim>\<open>detect_windows\<close>. The local variables \<^verbatim>\<open>mean\<close> and \<^verbatim>\<open>threshold\<close>; the cast to
  \<^verbatim>\<open>int\<close> truncates a value that is never negative, which is the floor. The code computes
  the product in \<^verbatim>\<open>double\<close>. With the 2000 bins that \<^verbatim>\<open>build_histogram\<close> sets, the exact
  product is \<open>3 * packet_count / 10000\<close>: either an integer, which the doubles compute
  exactly, or at least \<open>1 / 10000\<close> away from one, far more than the rounding error, so that
  the floor of the exact product is the value of the cast.
\<close>

definition detect_windows_mean :: "tc_data \<Rightarrow> real" where
  "detect_windows_mean tc = real (length (packets tc)) * 2 / real (histogram_size tc)"

definition detect_windows_threshold :: "tc_data \<Rightarrow> int" where
  "detect_windows_threshold tc =
     (let threshold = \<lfloor>detect_windows_mean tc * 0.3\<rfloor> in if threshold < 1 then 1 else threshold)"

definition has_traffic :: "int \<Rightarrow> int \<Rightarrow> bool" where
  "has_traffic threshold bin_val \<longleftrightarrow> bin_val \<ge> threshold"

text \<open>
  The scan. The list holds the bins from index \<open>i\<close> on, the bin of value 0 that the loop
  reads at \<open>i = histogram_size\<close> included; the result is \<^verbatim>\<open>in_window\<close> and the windows
  recorded.
\<close>

fun scan_windows :: "int \<Rightarrow> nat \<Rightarrow> nat \<Rightarrow> nat \<Rightarrow> int list \<Rightarrow> bool \<Rightarrow> nat \<Rightarrow> gate_window list
    \<Rightarrow> bool \<times> gate_window list" where
  "scan_windows threshold bin_size tc_idx i [] in_window window_start wins = (in_window, wins)"
| "scan_windows threshold bin_size tc_idx i (bin_val # rest) in_window window_start wins =
     (if has_traffic threshold bin_val \<and> \<not> in_window
      then scan_windows threshold bin_size tc_idx (i + 1) rest True i wins
      else if \<not> has_traffic threshold bin_val \<and> in_window
      then scan_windows threshold bin_size tc_idx (i + 1) rest False window_start
             (if length wins < 16
              then wins @ [\<lparr>start_offset_ns = (window_start * bin_size) mod 2 ^ 64,
                            duration_ns = ((i - window_start) * bin_size) mod 2 ^ 64,
                            w_tc = tc_idx\<rparr>]
              else wins)
      else scan_windows threshold bin_size tc_idx (i + 1) rest in_window window_start wins)"

text \<open>The merge of a window that spans the cycle boundary into the first window.\<close>

definition merge_wrap :: "nat \<Rightarrow> gate_window list \<Rightarrow> gate_window list" where
  "merge_wrap cycle_ns wins =
     (let lastw = last wins;
          first = hd wins;
          d = (duration_ns lastw + duration_ns first) mod 2 ^ 64;
          first' = first\<lparr>start_offset_ns := start_offset_ns lastw,
                         duration_ns := (if d > cycle_ns then cycle_ns else d)\<rparr>
      in butlast (first' # tl wins))"

definition detect_windows :: "tc_data \<Rightarrow> nat \<Rightarrow> nat \<Rightarrow> tc_data" where
  "detect_windows tc cycle_ns tc_idx =
     (if histogram_size tc = 0 \<or> length (packets tc) < 10 then tc
      else
        let threshold = detect_windows_threshold tc;
            bin_size = cycle_ns div histogram_size tc
        in (case scan_windows threshold bin_size tc_idx 0
                   (take (histogram_size tc) (histogram tc) @ [0]) False 0 [] of
              (in_window, wins) \<Rightarrow>
                if in_window \<and> length wins > 0 \<and> histogram tc ! 0 \<ge> threshold
                then tc\<lparr>windows := merge_wrap cycle_ns wins\<rparr>
                else tc\<lparr>windows := wins\<rparr>))"

text \<open>
  The analysis of \<^verbatim>\<open>main\<close> after the capture: the error exit when no cycle is found,
  else the cycle, the per-class structs with their windows, and the GCL.
\<close>

datatype tas_error = Could_not_detect_cycle_time

definition tas_main :: "(nat \<Rightarrow> tc_data) \<Rightarrow> real
    \<Rightarrow> tas_error + nat \<times> (nat \<Rightarrow> tc_data) \<times> gcl_entry list" where
  "tas_main tcd expected_cycle_ms =
     (let estimated_cycle_ns = detect_cycle_time tcd expected_cycle_ms
      in if estimated_cycle_ns = 0 then Inl Could_not_detect_cycle_time
         else
           let tcd' = (\<lambda>t. detect_windows (build_histogram (tcd t) estimated_cycle_ns)
                              estimated_cycle_ns t)
           in Inr (estimated_cycle_ns, tcd', build_gcl tcd' estimated_cycle_ns))"

section \<open>\<^verbatim>\<open>tsn-verify.c\<close>\<close>

text \<open>
  \<^verbatim>\<open>detect_bursts\<close> of \<^verbatim>\<open>tsn-verify.c\<close>, as the bursts it leaves in a zeroed struct.
  \<^verbatim>\<open>MAX_BURSTS\<close> is 5000 in this file, and the bound is part of the loop condition:
  the loop ends when it is reached. \<open>final_ts\<close> is the timestamp of the last packet.
\<close>

definition TSN_MAX_BURSTS :: nat where
  "TSN_MAX_BURSTS = 5000"

fun tsn_burst_loop :: "nat \<Rightarrow> nat \<Rightarrow> burst list \<Rightarrow> burst \<Rightarrow> packet list \<Rightarrow> burst list" where
  "tsn_burst_loop final_ts prev_ts fin b [] = fin @ [b\<lparr>end_ns := final_ts\<rparr>]"
| "tsn_burst_loop final_ts prev_ts fin b (p # ps) =
     (if \<not> length fin + 1 < TSN_MAX_BURSTS then fin @ [b\<lparr>end_ns := final_ts\<rparr>]
      else if sub64 (ts_ns p) prev_ts > 500000
      then tsn_burst_loop final_ts (ts_ns p) (fin @ [b\<lparr>end_ns := prev_ts\<rparr>])
             \<lparr>start_ns = ts_ns p, end_ns = 0, bytes = len p, b_packets = 1\<rparr> ps
      else tsn_burst_loop final_ts (ts_ns p) fin
             (b\<lparr>bytes := (bytes b + len p) mod 2 ^ 32, b_packets := (b_packets b + 1) mod 2 ^ 32\<rparr>) ps)"

definition tsn_detect_bursts :: "packet list \<Rightarrow> burst list" where
  "tsn_detect_bursts pkts =
     (case pkts of
        p0 # p1 # ps \<Rightarrow>
          tsn_burst_loop (ts_ns (last pkts)) (ts_ns p0) []
            \<lparr>start_ns = ts_ns p0, end_ns = 0, bytes = len p0, b_packets = 1\<rparr> (p1 # ps)
      | _ \<Rightarrow> [])"

text \<open>
  The threshold of \<^verbatim>\<open>analyze_tas\<close>, from the packet count; the histogram has 100 bins.
  The code computes the mean and the product in \<^verbatim>\<open>double\<close>. The exact product is
  \<open>3 * packet_count / 1000\<close>: either at least \<open>1 / 1000\<close> away from an integer, far more
  than the rounding error, or an integer \<open>3 * m\<close> for a mean of \<open>10 * m\<close>, which the doubles
  hold exactly and whose product with the double nearest to 0.3 rounds to \<open>3 * m\<close>; so
  that the floor of the exact product is the value of the cast.
\<close>

definition analyze_tas_threshold :: "nat \<Rightarrow> int" where
  "analyze_tas_threshold packet_count =
     (let mean = real packet_count / 100;
          threshold = \<lfloor>mean * 0.3\<rfloor>
      in if threshold < 1 then 1 else threshold)"

text \<open>
  The per-class struct of \<^verbatim>\<open>tsn-verify.c\<close>, on the fields that \<^verbatim>\<open>analyze_tas\<close> reads and
  writes. The two window fields are doubles in the code and reals here.
\<close>

record tsn_tas = tc_store +
  tas_histogram :: "int list"
  tas_histogram_size :: nat
  window_start_us :: real
  window_duration_us :: real

text \<open>
  For a cycle below 100 ns \<^verbatim>\<open>bin_size\<close> is 0, and the first pass of the counting loop
  divides by it.
\<close>

datatype tsn_error = Division_by_zero

text \<open>
  The bin of a packet. With a bin size of at least 1 the quotient is below 200, which the
  conversion to \<^verbatim>\<open>int\<close> keeps; a packet with a bin of 100 or more is not counted.
\<close>

definition tas_bin :: "nat \<Rightarrow> nat \<Rightarrow> nat \<Rightarrow> packet \<Rightarrow> nat" where
  "tas_bin first cycle_ns bin_size p = (sub64 (ts_ns p) first mod cycle_ns) div bin_size"

definition tas_count_bins :: "nat \<Rightarrow> nat \<Rightarrow> nat \<Rightarrow> nat \<Rightarrow> packet list \<Rightarrow> int list \<Rightarrow> int list" where
  "tas_count_bins first cycle_ns bin_size n_bins ps bins =
     fold (\<lambda>p h. let bin = tas_bin first cycle_ns bin_size p
                  in if bin < n_bins then h[bin := h ! bin + 1] else h) ps bins"

text \<open>
  The loop that finds the window: \<^verbatim>\<open>start\<close> and \<^verbatim>\<open>end\<close>, both -1 until a bin passes the
  test.
\<close>

definition tas_span :: "int \<Rightarrow> int list \<Rightarrow> nat \<Rightarrow> int \<times> int" where
  "tas_span threshold h n_bins =
     fold (\<lambda>i (start, endb).
             if h ! i \<ge> threshold then (if start < 0 then int i else start, int i)
             else (start, endb))
          [0..<n_bins] (- 1, - 1)"

text \<open>\<^verbatim>\<open>analyze_tas\<close>. The array \<^verbatim>\<open>histogram\<close> has 1000 entries, of which 100 are used.\<close>

definition analyze_tas :: "tsn_tas \<Rightarrow> nat \<Rightarrow> nat \<Rightarrow> tsn_error + tsn_tas" where
  "analyze_tas tc cycle_ns tc_idx =
     (if length (packets tc) < 10 \<or> cycle_ns = 0 then Inr tc
      else
        let n_bins = 100;
            bin_size = cycle_ns div n_bins
        in if bin_size = 0 then Inl Division_by_zero
           else
             let h = tas_count_bins (first_ts tc) cycle_ns bin_size n_bins (packets tc)
                       (replicate 1000 0);
                 threshold = analyze_tas_threshold (length (packets tc));
                 tc' = tc\<lparr>tas_histogram := h, tas_histogram_size := n_bins\<rparr>
             in (case tas_span threshold h n_bins of
                   (start, endb) \<Rightarrow>
                     if start \<ge> 0
                     then Inr (tc'\<lparr>window_start_us := real_of_int start * (real bin_size / 1000),
                                   window_duration_us :=
                                     real_of_int (endb - start + 1) * (real bin_size / 1000)\<rparr>)
                     else Inr tc'))"

text \<open>
  \<^verbatim>\<open>analyze_cbs\<close> of \<^verbatim>\<open>tsn-verify.c\<close>, on the fields that its struct shares with
  \<^verbatim>\<open>tc_analysis_t\<close>; it keeps no gap or burst-size statistics.
\<close>

definition tsn_analyze_cbs :: "tc_analysis \<Rightarrow> tc_analysis" where
  "tsn_analyze_cbs tc =
     (if length (packets tc) < 10 then tc
      else if total_duration_s tc \<le> 0 then tc
      else
        let measured = (real (total_bytes tc) * 8) / total_duration_s tc;
            total_burst = fold (\<lambda>b s. s + real (sub64 (end_ns b) (start_ns b)) / 1000) (bursts tc) 0;
            total_time = total_duration_s tc * 1000000;
            ratio = total_burst / total_time
        in tc\<lparr>measured_bps := measured,
               burst_ratio := ratio,
               is_shaped := (ratio < 0.85 \<and> length (bursts tc) > 3),
               estimated_idle_slope := measured\<rparr>)"

section \<open>Predicates and inputs of the theorems\<close>

text \<open>
  The aggregates agree with the stored packets: \<^verbatim>\<open>total_bytes\<close> is the sum of the stored
  lengths, \<^verbatim>\<open>first_ts\<close> and \<^verbatim>\<open>last_ts\<close> are the first and the last stored timestamp.
\<close>

definition store_consistent :: "tc_analysis \<Rightarrow> bool" where
  "store_consistent tc \<longleftrightarrow>
     total_bytes tc = sum_list (map len (packets tc)) \<and>
     (if packets tc = [] then first_ts tc = 0
      else first_ts tc = ts_ns (hd (packets tc)) \<and> last_ts tc = ts_ns (last (packets tc)))"

text \<open>An observation with a non-zero timestamp and a length that fits the 16-bit field.\<close>

definition valid_obs :: "nat \<times> nat \<Rightarrow> bool" where
  "valid_obs ob \<longleftrightarrow> 0 < fst ob \<and> snd ob < 2 ^ 16"

text \<open>The invariant of the store during a capture.\<close>

definition store_inv :: "tc_analysis \<Rightarrow> bool" where
  "store_inv tc \<longleftrightarrow>
     store_consistent tc \<and> length (packets tc) \<le> MAX_PACKETS \<and>
     list_all (\<lambda>p. 0 < ts_ns p \<and> len p < 2 ^ 16) (packets tc)"

text \<open>
  Bursts in time order and without overlap: no burst ends before it starts, and each
  burst ends before every later one starts.
\<close>

definition bursts_ordered :: "burst list \<Rightarrow> bool" where
  "bursts_ordered bs \<longleftrightarrow>
     list_all (\<lambda>b. start_ns b \<le> end_ns b) bs \<and> sorted_wrt (\<lambda>a b. end_ns a < start_ns b) bs"

text \<open>A fresh struct whose packets carry 64-bit timestamps.\<close>

definition fresh_store :: "tc_analysis \<Rightarrow> bool" where
  "fresh_store tc \<longleftrightarrow>
     bursts tc = [] \<and> length (packets tc) \<le> MAX_PACKETS \<and>
     list_all (\<lambda>p. ts_ns p < 2 ^ 64) (packets tc)"

text \<open>Two packets captured out of timestamp order.\<close>

definition out_of_order_input :: tc_analysis where
  "out_of_order_input =
     zero_tc\<lparr>packets := [\<lparr>ts_ns = 2000000, len = 64\<rparr>, \<lparr>ts_ns = 1000000, len = 64\<rparr>],
             total_bytes := 128, first_ts := 2000000, last_ts := 1000000\<rparr>"

text \<open>Three packets in time order, the third 1.9 ms after the second.\<close>

definition two_bursts_input :: tc_analysis where
  "two_bursts_input =
     zero_tc\<lparr>packets := [\<lparr>ts_ns = 1000000, len = 64\<rparr>, \<lparr>ts_ns = 1100000, len = 64\<rparr>,
                         \<lparr>ts_ns = 3000000, len = 64\<rparr>],
             total_bytes := 192, first_ts := 1000000, last_ts := 3000000\<rparr>"

text \<open>\<open>n\<close> observations of length \<open>l\<close>, the first at \<open>t\<close>, each \<open>d\<close> ns after the one before.\<close>

fun uniform_obs :: "nat \<Rightarrow> nat \<Rightarrow> nat \<Rightarrow> nat \<Rightarrow> (nat \<times> nat) list" where
  "uniform_obs t d l 0 = []"
| "uniform_obs t d l (Suc n) = (t, l) # uniform_obs (t + d) d l n"

text \<open>The packet that the handler stores for an observation of less than \<open>2 ^ 16\<close> bytes.\<close>

definition packet_of :: "nat \<times> nat \<Rightarrow> packet" where
  "packet_of ob = \<lparr>ts_ns = fst ob, len = snd ob\<rparr>"

text \<open>Every gap of the sequence, the one from \<open>prev\<close> to its head included, exceeds 500 us.\<close>

fun gaps_exceed :: "nat \<Rightarrow> packet list \<Rightarrow> bool" where
  "gaps_exceed prev [] = True"
| "gaps_exceed prev (p # ps) = (sub64 (ts_ns p) prev > 500000 \<and> gaps_exceed (ts_ns p) ps)"

text \<open>No gap of the sequence exceeds 500 us.\<close>

fun gaps_within :: "nat \<Rightarrow> packet list \<Rightarrow> bool" where
  "gaps_within prev [] = True"
| "gaps_within prev (p # ps) = (sub64 (ts_ns p) prev \<le> 500000 \<and> gaps_within (ts_ns p) ps)"

text \<open>The burst that holds one packet.\<close>

definition single_burst :: "packet \<Rightarrow> burst" where
  "single_burst p = \<lparr>start_ns = ts_ns p, end_ns = ts_ns p, bytes = len p, b_packets = 1\<rparr>"

text \<open>
  Twelve observations in four groups of three, 100 us apart inside a group, the groups
  2 ms apart; and the struct of their class when \<^verbatim>\<open>analyze_cbs\<close> is called.
\<close>

definition shaped_obs :: "(nat \<times> nat) list" where
  "shaped_obs =
     [(1000000, 100), (1100000, 100), (1200000, 100),
      (3200000, 100), (3300000, 100), (3400000, 100),
      (5400000, 100), (5500000, 100), (5600000, 100),
      (7600000, 100), (7700000, 100), (7800000, 100)]"

definition shaped_input :: tc_analysis where
  "shaped_input = detect_bursts (capture zero_tc shaped_obs)"

text \<open>Ten observations that carry the same timestamp, in class 0; no other traffic.\<close>

definition same_ts_obs :: "(nat \<times> nat) list" where
  "same_ts_obs =
     [(1000000, 64), (1000000, 64), (1000000, 64), (1000000, 64), (1000000, 64),
      (1000000, 64), (1000000, 64), (1000000, 64), (1000000, 64), (1000000, 64)]"

definition same_ts_input :: "nat \<Rightarrow> tc_analysis" where
  "same_ts_input i = (if i = 0 then analyze_class (capture zero_tc same_ts_obs) else zero_tc)"

text \<open>The cutoff in the words of the specification: 0.3 times the mean bin occupancy, at least 1.\<close>

definition spec_cutoff :: "nat \<Rightarrow> nat \<Rightarrow> real" where
  "spec_cutoff observations bin_count = max 1 (0.3 * (real observations / real bin_count))"

text \<open>
  The cutoff with the product truncated: the integer part of 0.3 times the mean bin
  occupancy, at least 1.
\<close>

definition integer_cutoff :: "nat \<Rightarrow> nat \<Rightarrow> int" where
  "integer_cutoff observations bin_count =
     max 1 \<lfloor>0.3 * (real observations / real bin_count)\<rfloor>"

text \<open>Bin \<open>i\<close>, of \<open>bin_size\<close> nanoseconds, lies inside one of the windows.\<close>

definition bin_reported :: "nat \<Rightarrow> gate_window list \<Rightarrow> nat \<Rightarrow> bool" where
  "bin_reported bin_size wins i \<longleftrightarrow>
     list_ex (\<lambda>w. start_offset_ns w \<le> i * bin_size \<and>
                   (i + 1) * bin_size \<le> start_offset_ns w + duration_ns w) wins"

text \<open>A class with 12000 packets and the histogram of 2000 bins, 6 packets in every bin.\<close>

definition twelve_k :: tc_data where
  "twelve_k = empty_tc\<lparr>packets := replicate 12000 \<lparr>ts_ns = 1000000, len = 64\<rparr>,
     first_ts := 1000000, last_ts := 1000000,
     histogram := replicate 2000 6, histogram_size := 2000\<rparr>"

text \<open>
  Ten packets of a cycle of 10 ms: five at the start of the cycle and five of them 3 us
  before its end, a single open interval across the cycle boundary.
\<close>

definition wrap_capture :: tc_data where
  "wrap_capture = empty_tc\<lparr>packets :=
       [\<lparr>ts_ns = 1000000, len = 64\<rparr>, \<lparr>ts_ns = 10997000, len = 64\<rparr>,
        \<lparr>ts_ns = 11000000, len = 64\<rparr>, \<lparr>ts_ns = 20997000, len = 64\<rparr>,
        \<lparr>ts_ns = 21000000, len = 64\<rparr>, \<lparr>ts_ns = 30997000, len = 64\<rparr>,
        \<lparr>ts_ns = 31000000, len = 64\<rparr>, \<lparr>ts_ns = 40997000, len = 64\<rparr>,
        \<lparr>ts_ns = 41000000, len = 64\<rparr>, \<lparr>ts_ns = 50997000, len = 64\<rparr>],
     first_ts := 1000000, last_ts := 50997000\<rparr>"

text \<open>
  500 packets of a cycle of 10 ms in a struct of \<^verbatim>\<open>tsn-verify.c\<close>: 499 at the start of the
  cycle and one of them 5 ms into it.
\<close>

definition tas_capture :: tsn_tas where
  "tas_capture = \<lparr>packets = replicate 499 \<lparr>ts_ns = 1000000, len = 64\<rparr> @ [\<lparr>ts_ns = 6000000, len = 64\<rparr>],
     first_ts = 1000000, last_ts = 6000000, tas_histogram = replicate 1000 0,
     tas_histogram_size = 0, window_start_us = 0, window_duration_us = 0\<rparr>"

text \<open>The mean gap between bursts as \<^verbatim>\<open>analyze_cbs\<close> of \<^verbatim>\<open>cbs-estimator.c\<close> computes it.\<close>

definition mean_gap_us :: "burst list \<Rightarrow> real" where
  "mean_gap_us bs =
     (case burst_stats 0 0 0 bs of
        (total_burst_time, total_gap_time, max_burst) \<Rightarrow>
          if length bs > 1 then total_gap_time / real (length bs - 1) else 0)"

text \<open>A burst starts more than 500 us after the burst before it has ended.\<close>

definition wide_gap :: "burst \<Rightarrow> burst \<Rightarrow> bool" where
  "wide_gap a b \<longleftrightarrow> sub64 (start_ns b) (end_ns a) > 500000"

section \<open>Theorems\<close>

subsection \<open>The GCL builder\<close>

lemma sort_pass_set: "sort_pass x xs = (m, r) \<Longrightarrow> insert m (set r) = insert x (set xs)"
proof (induction xs arbitrary: x m r)
  case Nil
  then show ?case by simp
next
  case (Cons y ys)
  show ?case
  proof (cases "time y < time x")
    case True
    obtain m' r' where p: "sort_pass y ys = (m', r')" by (cases "sort_pass y ys")
    with True Cons.prems have "m = m'" "r = x # r'" by simp_all
    then have "insert m (set r) = insert x (insert m' (set r'))" by auto
    also from Cons.IH [OF p] have "insert m' (set r') = insert y (set ys)" .
    finally show ?thesis by simp
  next
    case False
    obtain m' r' where p: "sort_pass x ys = (m', r')" by (cases "sort_pass x ys")
    with False Cons.prems have "m = m'" "r = y # r'" by simp_all
    then have "insert m (set r) = insert y (insert m' (set r'))" by auto
    also from Cons.IH [OF p] have "insert m' (set r') = insert x (set ys)" .
    finally show ?thesis by (simp add: insert_commute)
  qed
qed

lemma sort_events_set: "set (sort_events xs) = set xs"
proof (induction xs rule: sort_events.induct)
  case 1
  then show ?case by simp
next
  case (2 x xs)
  obtain m r where mr: "sort_pass x xs = (m, r)" by (cases "sort_pass x xs")
  with 2 have "set (sort_events r) = set r" by simp
  with mr sort_pass_set [OF mr] show ?case by simp
qed

lemma sweep_sum:
  "sweep prev es g lt gcl = (g', lt', gcl') \<Longrightarrow> sum_list (map time_ns gcl) = lt \<Longrightarrow>
   \<forall>e\<in>set es. time e < 2 ^ 32 \<Longrightarrow>
   sum_list (map time_ns gcl') = lt' \<and> (lt' = lt \<or> lt' \<in> time ` set es)"
proof (induction es arbitrary: prev g lt gcl)
  case Nil
  then show ?case by simp
next
  case (Cons e es)
  show ?case
  proof (cases "length gcl < MAX_GCL_ENTRIES")
    case False
    with Cons.prems show ?thesis by simp
  next
    case cap: True
    show ?thesis
    proof (cases "(case prev of None \<Rightarrow> False | Some p \<Rightarrow> time e = time p) \<or> \<not> lt < time e")
      case True
      with cap Cons.prems(1) have "sweep (Some e) es (apply_event e g) lt gcl = (g', lt', gcl')"
        by (cases "case prev of None \<Rightarrow> False | Some p \<Rightarrow> time e = time p") simp_all
      from Cons.IH [OF this] Cons.prems show ?thesis by auto
    next
      case False
      then have a: "\<not> (case prev of None \<Rightarrow> False | Some p \<Rightarrow> time e = time p)" and b: "lt < time e"
        by simp_all
      from Cons.prems(1) cap a b have *: "sweep (Some e) es (apply_event e g) (time e)
          (gcl @ [\<lparr>gate_states = g, time_ns = (time e - lt) mod 2 ^ 32\<rparr>]) = (g', lt', gcl')"
        by simp
      from Cons.prems have "time e < 2 ^ 32" by simp
      then have "(time e - lt) mod 2 ^ 32 = time e - lt" by simp
      with b Cons.prems(2) have "sum_list (map time_ns (gcl @ [\<lparr>gate_states = g, time_ns = (time e - lt) mod 2 ^ 32\<rparr>])) = time e"
        by simp
      from Cons.IH [OF * this] Cons.prems show ?thesis by auto
    qed
  qed
qed

lemma card_step:
  assumes "finite T" "lt < (te::nat)"
  shows "Suc (card {t \<in> T. te < t}) \<le> card {t \<in> insert te T. lt < t}"
proof -
  have "insert te {t \<in> T. te < t} \<subseteq> {t \<in> insert te T. lt < t}"
    using assms by auto
  moreover have "finite {t \<in> insert te T. lt < t}" using assms by simp
  ultimately have "card (insert te {t \<in> T. te < t}) \<le> card {t \<in> insert te T. lt < t}"
    by (rule card_mono [rotated])
  moreover have "card (insert te {t \<in> T. te < t}) = Suc (card {t \<in> T. te < t})"
    using assms by (subst card_insert_disjoint) auto
  ultimately show ?thesis by simp
qed

lemma card_keep:
  assumes "finite T"
  shows "card {t \<in> T. lt < t} \<le> card {t \<in> insert te T. (lt::nat) < t}"
  by (rule card_mono) (use assms in auto)

lemma sweep_length:
  "sweep prev es g lt gcl = (g', lt', gcl') \<Longrightarrow>
   length gcl' \<le> length gcl + card {t \<in> time ` set es. lt < t}"
proof (induction es arbitrary: prev g lt gcl)
  case Nil
  then show ?case by simp
next
  case (Cons e es)
  show ?case
  proof (cases "length gcl < MAX_GCL_ENTRIES")
    case False
    with Cons.prems show ?thesis by simp
  next
    case cap: True
    show ?thesis
    proof (cases "(case prev of None \<Rightarrow> False | Some p \<Rightarrow> time e = time p) \<or> \<not> lt < time e")
      case True
      with cap Cons.prems(1) have "sweep (Some e) es (apply_event e g) lt gcl = (g', lt', gcl')"
        by (cases "case prev of None \<Rightarrow> False | Some p \<Rightarrow> time e = time p") simp_all
      from Cons.IH [OF this] have "length gcl' \<le> length gcl + card {t \<in> time ` set es. lt < t}" .
      also have "card {t \<in> time ` set es. lt < t} \<le> card {t \<in> insert (time e) (time ` set es). lt < t}"
        by (rule card_keep) simp
      finally show ?thesis by simp
    next
      case False
      then have a: "\<not> (case prev of None \<Rightarrow> False | Some p \<Rightarrow> time e = time p)" and b: "lt < time e"
        by simp_all
      from Cons.prems(1) cap a b have *: "sweep (Some e) es (apply_event e g) (time e)
          (gcl @ [\<lparr>gate_states = g, time_ns = (time e - lt) mod 2 ^ 32\<rparr>]) = (g', lt', gcl')"
        by simp
      from Cons.IH [OF *] have "length gcl' \<le> length gcl + Suc (card {t \<in> time ` set es. time e < t})"
        by simp
      also have "Suc (card {t \<in> time ` set es. time e < t}) \<le> card {t \<in> insert (time e) (time ` set es). lt < t}"
        by (rule card_step) (use False in auto)
      finally show ?thesis by simp
    qed
  qed
qed

lemma merge_gcl_sum:
  "sum_list (map time_ns acc) + sum_list (map time_ns xs) < 2 ^ 32 \<Longrightarrow>
   sum_list (map time_ns (merge_gcl acc xs)) = sum_list (map time_ns acc) + sum_list (map time_ns xs)"
proof (induction xs arbitrary: acc)
  case Nil
  then show ?case by simp
next
  case (Cons x xs)
  show ?case
  proof (cases "acc \<noteq> [] \<and> gate_states (last acc) = gate_states x")
    case True
    then have acc: "acc = butlast acc @ [last acc]" by simp
    let ?acc' = "butlast acc @ [(last acc)\<lparr>time_ns := (time_ns (last acc) + time_ns x) mod 2 ^ 32\<rparr>]"
    have s: "sum_list (map time_ns acc) = sum_list (map time_ns (butlast acc)) + time_ns (last acc)"
      by (subst acc) simp
    with Cons.prems have small: "time_ns (last acc) + time_ns x < 2 ^ 32" by simp
    then have s': "sum_list (map time_ns ?acc') = sum_list (map time_ns acc) + time_ns x"
      using s by simp
    with Cons.prems have "sum_list (map time_ns ?acc') + sum_list (map time_ns xs) < 2 ^ 32" by simp
    from Cons.IH [OF this] s' True show ?thesis by simp
  next
    case False
    from Cons.prems have "sum_list (map time_ns (acc @ [x])) + sum_list (map time_ns xs) < 2 ^ 32" by simp
    from Cons.IH [OF this] False show ?thesis by auto
  qed
qed

lemma merge_gcl_distinct_adj:
  "distinct_adj (map gate_states acc) \<Longrightarrow> distinct_adj (map gate_states (merge_gcl acc xs))"
proof (induction xs arbitrary: acc)
  case Nil
  then show ?case by simp
next
  case (Cons x xs)
  show ?case
  proof (cases "acc \<noteq> [] \<and> gate_states (last acc) = gate_states x")
    case True
    then have acc: "acc = butlast acc @ [last acc]" by simp
    let ?acc' = "butlast acc @ [(last acc)\<lparr>time_ns := (time_ns (last acc) + time_ns x) mod 2 ^ 32\<rparr>]"
    have "map gate_states ?acc' = map gate_states (butlast acc @ [last acc])" by simp
    with acc have "map gate_states ?acc' = map gate_states acc" by simp
    with Cons.prems have "distinct_adj (map gate_states ?acc')" by simp
    from Cons.IH [OF this] True show ?thesis by simp
  next
    case False
    with Cons.prems have "distinct_adj (map gate_states (acc @ [x]))"
      by (auto simp: distinct_adj_append_iff last_map)
    from Cons.IH [OF this] False show ?thesis by auto
  qed
qed

lemma collect_events_time:
  assumes "0 < C" "windows_in_cycle tcd C" "e \<in> set (collect_events tcd C)"
  shows "time e < C"
  using assms
  by (auto simp: collect_events_def windows_in_cycle_def window_events_def list_all_iff)

text \<open>
  C7. Class 0 open during [0, 3 ms) and class 1 open during [3 ms, 10 ms) of a 10 ms cycle,
  no other class having a window: \<^verbatim>\<open>build_gcl\<close> yields exactly the two entries
  (mask \<open>0b01\<close>, 3 ms) and (mask \<open>0b10\<close>, 7 ms), in this order.
\<close>

theorem C7_scenario4_gcl:
  "build_gcl scenario4 10000000 =
     [\<lparr>gate_states = 1, time_ns = 3000000\<rparr>, \<lparr>gate_states = 2, time_ns = 7000000\<rparr>]"
  by (simp add: build_gcl_def collect_events_def window_events_def MAX_TC_def scenario4_def
      empty_tc_def upt_conv_Cons initial_gates_def open_at_zero_def apply_event_def
      final_entry_def MAX_GCL_ENTRIES_def)

text \<open>
  C1 (amended). For a cycle length \<open>0 < C < 2 ^ 32\<close> ns and windows that start inside
  the cycle, at most 16 per class: when the windows have fewer than 64 distinct non-zero
  boundary times, the durations of the entries of \<^verbatim>\<open>build_gcl\<close> sum to exactly \<open>C\<close>, and
  no two adjacent entries carry the same gate mask.
\<close>

theorem C1_sum:
  assumes "0 < C" and "C < 2 ^ 32" and "windows_in_cycle tcd C"
    and "length (boundary_times tcd C) < MAX_GCL_ENTRIES"
  shows "sum_list (map time_ns (build_gcl tcd C)) = C \<and>
         distinct_adj (map gate_states (build_gcl tcd C))"
proof -
  let ?evs = "sort_events (collect_events tcd C)"
  obtain g lt gcl where sw: "sweep None ?evs (initial_gates tcd C) 0 [] = (g, lt, gcl)"
    by (cases "sweep None ?evs (initial_gates tcd C) 0 []") auto
  have times: "\<forall>e\<in>set ?evs. time e < C"
    using collect_events_time [OF assms(1,3)] by (simp add: sort_events_set)
  with assms(2) have small: "\<forall>e\<in>set ?evs. time e < 2 ^ 32"
    by fastforce
  from sweep_sum [OF sw _ small] have sum: "sum_list (map time_ns gcl) = lt"
    and lt: "lt = 0 \<or> lt \<in> time ` set ?evs" by simp_all
  from lt times assms(1) have ltC: "lt < C" by auto
  have "{t \<in> time ` set ?evs. 0 < t} = set (boundary_times tcd C)"
    by (auto simp: boundary_times_def sort_events_set)
  then have "card {t \<in> time ` set ?evs. 0 < t} \<le> length (boundary_times tcd C)"
    by (simp add: card_length)
  with sweep_length [OF sw] assms(4) have len: "length gcl < MAX_GCL_ENTRIES" by simp
  let ?fe = "final_entry C (g, lt, gcl)"
  from ltC len have fe: "?fe = gcl @ [\<lparr>gate_states = g, time_ns = (C - lt) mod 2 ^ 32\<rparr>]"
    by (simp add: final_entry_def)
  from assms(2) have "(C - lt) mod 2 ^ 32 = C - lt" by simp
  with fe sum ltC have total: "sum_list (map time_ns ?fe) = C" by simp
  with assms(2) have "sum_list (map time_ns []) + sum_list (map time_ns ?fe) < 2 ^ 32" by simp
  from merge_gcl_sum [OF this] total have "sum_list (map time_ns (merge_gcl [] ?fe)) = C" by simp
  moreover have "distinct_adj (map gate_states (merge_gcl [] ?fe))"
    by (rule merge_gcl_distinct_adj) simp
  ultimately show ?thesis by (simp add: build_gcl_def sw)
qed

text \<open>The theorem at the two-class input of scenario 4.\<close>

theorem C1_sum_witness:
  "windows_in_cycle scenario4 10000000 \<and>
   length (boundary_times scenario4 10000000) < MAX_GCL_ENTRIES \<and>
   sum_list (map time_ns (build_gcl scenario4 10000000)) = 10000000 \<and>
   distinct_adj (map gate_states (build_gcl scenario4 10000000))"
proof -
  have a: "windows_in_cycle scenario4 10000000"
    by (simp add: windows_in_cycle_def MAX_TC_def upt_conv_Cons scenario4_def empty_tc_def)
  have b: "length (boundary_times scenario4 10000000) < MAX_GCL_ENTRIES"
    by (simp add: boundary_times_def collect_events_def window_events_def MAX_TC_def
        upt_conv_Cons scenario4_def empty_tc_def MAX_GCL_ENTRIES_def)
  from C1_sum [OF _ _ a b] a b show ?thesis by simp
qed

text \<open>
  C1 as stated fails when the sweep reaches the ceiling of 64 entries: the loop stops there
  and the entry that would complete the cycle is not written. At \<open>gcl_cap_input\<close> the
  durations sum to 640 ns, not to the cycle length of 1000 ns. It also fails for a cycle
  that does not fit the 32-bit \<^verbatim>\<open>time_ns\<close>: with no window at all and a cycle of 5 s the
  single entry holds 5000000000 modulo \<open>2 ^ 32\<close>.
\<close>

theorem C1_cap_counterexample:
  "sum_list (map time_ns (build_gcl gcl_cap_input 1000)) \<noteq> 1000 \<and>
   sum_list (map time_ns (build_gcl (\<lambda>t. empty_tc) 5000000000)) \<noteq> 5000000000"
proof
  show "sum_list (map time_ns (build_gcl gcl_cap_input 1000)) \<noteq> 1000"
    by (simp add: build_gcl_def collect_events_def window_events_def MAX_TC_def gcl_cap_input_def
        empty_tc_def upt_conv_Cons initial_gates_def open_at_zero_def apply_event_def
        final_entry_def MAX_GCL_ENTRIES_def)
  show "sum_list (map time_ns (build_gcl (\<lambda>t. empty_tc) 5000000000)) \<noteq> 5000000000"
    by (simp add: build_gcl_def collect_events_def MAX_TC_def empty_tc_def upt_conv_Cons
        initial_gates_def final_entry_def MAX_GCL_ENTRIES_def)
qed

subsection \<open>The sample store\<close>

lemma packet_handler_class:
  "packet_handler tcd pcp ts l pcp = store_packet (tcd pcp) ts l"
  "q \<noteq> pcp \<Longrightarrow> packet_handler tcd pcp ts l q = tcd q"
  by (simp_all add: packet_handler_def)

lemma sum_len_bound:
  "list_all (\<lambda>p. 0 < ts_ns p \<and> len p < 2 ^ 16) ps \<Longrightarrow> sum_list (map len ps) \<le> length ps * 2 ^ 16"
  by (induction ps) auto

lemma store_packet_full:
  "\<not> length (packets tc) < MAX_PACKETS \<Longrightarrow> store_packet tc ts l = tc"
  by (simp add: store_packet_def)

lemma store_packet_inv:
  assumes "store_inv tc" "0 < ts" "l < 2 ^ 16" "length (packets tc) < MAX_PACKETS"
  shows "store_inv (store_packet tc ts l)"
    and "packets (store_packet tc ts l) = packets tc @ [\<lparr>ts_ns = ts, len = l\<rparr>]"
proof -
  from assms(1) have "sum_list (map len (packets tc)) \<le> length (packets tc) * 2 ^ 16"
    using sum_len_bound [of "packets tc"] by (simp add: store_inv_def)
  also from assms(4) have "\<dots> \<le> MAX_PACKETS * 2 ^ 16" by simp
  finally have "sum_list (map len (packets tc)) + l < 2 ^ 64"
    using assms(3) by (simp add: MAX_PACKETS_def)
  then have m: "(sum_list (map len (packets tc)) + l) mod 2 ^ 64 = sum_list (map len (packets tc)) + l"
    by simp
  show "packets (store_packet tc ts l) = packets tc @ [\<lparr>ts_ns = ts, len = l\<rparr>]"
    using assms by (simp add: store_packet_def)
  show "store_inv (store_packet tc ts l)"
    using assms m
    by (cases "packets tc") (auto simp: store_inv_def store_consistent_def store_packet_def)
qed

lemma capture_snoc: "capture tc (obs @ [(ts, l)]) = store_packet (capture tc obs) ts l"
  by (simp add: capture_def)

lemma zero_tc_inv: "store_inv zero_tc"
  by (simp add: store_inv_def store_consistent_def zero_tc_def)

lemma capture_inv:
  "list_all valid_obs obs \<Longrightarrow> store_inv (capture zero_tc obs)"
proof (induction obs rule: rev_induct)
  case Nil
  then show ?case by (simp add: capture_def zero_tc_inv)
next
  case (snoc ob obs)
  obtain ts l where ob: "ob = (ts, l)" by (cases ob)
  from snoc have inv: "store_inv (capture zero_tc obs)" and v: "0 < ts" "l < 2 ^ 16"
    by (simp_all add: ob valid_obs_def)
  show ?case
  proof (cases "length (packets (capture zero_tc obs)) < MAX_PACKETS")
    case True
    from store_packet_inv(1) [OF inv v True] show ?thesis by (simp add: ob capture_snoc)
  next
    case False
    with inv show ?thesis by (simp add: ob capture_snoc store_packet_full)
  qed
qed

text \<open>
  C10 (amended). After any sequence of observations with non-zero timestamps and lengths
  below \<open>2 ^ 16\<close>, one more such observation is either appended to the store, and then
  \<^verbatim>\<open>total_bytes\<close> is the sum of all stored lengths, \<^verbatim>\<open>first_ts\<close> the first and
  \<^verbatim>\<open>last_ts\<close> the last stored timestamp; or, when \<^verbatim>\<open>packet_count\<close> has reached
  \<^verbatim>\<open>MAX_PACKETS\<close>, the whole struct is left as it was.
\<close>

theorem C10_append:
  assumes "list_all valid_obs obs" and "valid_obs (ts, l)"
  shows "(length (packets (capture zero_tc obs)) < MAX_PACKETS \<longrightarrow>
            packets (store_packet (capture zero_tc obs) ts l)
              = packets (capture zero_tc obs) @ [\<lparr>ts_ns = ts, len = l\<rparr>] \<and>
            store_consistent (store_packet (capture zero_tc obs) ts l)) \<and>
         (\<not> length (packets (capture zero_tc obs)) < MAX_PACKETS \<longrightarrow>
            store_packet (capture zero_tc obs) ts l = capture zero_tc obs)"
proof -
  from assms(1) have inv: "store_inv (capture zero_tc obs)" by (rule capture_inv)
  from assms(2) have v: "0 < ts" "l < 2 ^ 16" by (simp_all add: valid_obs_def)
  show ?thesis
    using store_packet_inv [OF inv v] store_packet_full [of "capture zero_tc obs" ts l]
    by (auto simp: store_inv_def)
qed

text \<open>The theorem at a store that holds one packet and takes a second.\<close>

theorem C10_append_witness:
  "store_packet (capture zero_tc [(1000, 64)]) 2000 128 =
     zero_tc\<lparr>packets := [\<lparr>ts_ns = 1000, len = 64\<rparr>, \<lparr>ts_ns = 2000, len = 128\<rparr>],
             total_bytes := 192, first_ts := 1000, last_ts := 2000\<rparr> \<and>
   store_consistent (store_packet (capture zero_tc [(1000, 64)]) 2000 128)"
proof -
  have a: "list_all valid_obs [(1000, 64)]" by (simp add: valid_obs_def)
  have b: "valid_obs (2000, 128)" by (simp add: valid_obs_def)
  have c: "length (packets (capture zero_tc [(1000, 64)])) < MAX_PACKETS"
    by (simp add: capture_def store_packet_def zero_tc_def MAX_PACKETS_def)
  from C10_append [OF a b] c
  have "store_consistent (store_packet (capture zero_tc [(1000, 64)]) 2000 128)" by simp
  moreover have "store_packet (capture zero_tc [(1000, 64)]) 2000 128 =
     zero_tc\<lparr>packets := [\<lparr>ts_ns = 1000, len = 64\<rparr>, \<lparr>ts_ns = 2000, len = 128\<rparr>],
             total_bytes := 192, first_ts := 1000, last_ts := 2000\<rparr>"
    by (simp add: capture_def store_packet_def zero_tc_def MAX_PACKETS_def)
  ultimately show ?thesis by simp
qed

text \<open>
  C10 as stated fails for a frame whose length does not fit 16 bits: \<^verbatim>\<open>total_bytes\<close> grows
  by the full \<^verbatim>\<open>hdr->len\<close> (70000) while the stored \<^verbatim>\<open>len\<close> is the truncated value
  (4464).
\<close>

theorem C10_length_counterexample:
  "total_bytes (store_packet zero_tc 1000 70000)
     \<noteq> sum_list (map len (packets (store_packet zero_tc 1000 70000)))"
  by (simp add: store_packet_def zero_tc_def MAX_PACKETS_def)

subsection \<open>The burst segmenter\<close>

lemma sub_mod_le:
  fixes a b m :: nat
  assumes "b \<le> a" "a < m"
  shows "(a + m - b) mod m = a - b"
proof -
  from assms(1) have "a + m - b = (a - b) + m" by (rule add_diff_assoc2 [symmetric])
  moreover from assms have "a - b < m" by arith
  ultimately show ?thesis by (simp only: mod_add_self2 mod_less)
qed

lemma sub64_le: "b \<le> a \<Longrightarrow> a < 2 ^ 64 \<Longrightarrow> sub64 a b = a - b"
  unfolding sub64_def by (rule sub_mod_le)

lemma burst_loop_packets:
  "b_packets b + length ps < 2 ^ 32 \<Longrightarrow>
   sum_list (map b_packets (burst_loop prev fin b ps))
     = sum_list (map b_packets fin) + b_packets b + length ps"
proof (induction ps arbitrary: prev fin b)
  case Nil
  then show ?case by simp
next
  case (Cons p ps)
  show ?case
  proof (cases "sub64 (ts_ns p) prev > BURST_GAP_THRESHOLD_US * 1000 \<and> length fin + 1 < MAX_BURSTS")
    case True
    let ?nb = "\<lparr>start_ns = ts_ns p, end_ns = 0, bytes = len p, b_packets = 1\<rparr>"
    from True have eq: "burst_loop prev fin b (p # ps)
        = burst_loop (ts_ns p) (fin @ [b\<lparr>end_ns := prev\<rparr>]) ?nb ps" by simp
    from Cons.prems have "b_packets ?nb + length ps < 2 ^ 32" by simp
    from Cons.IH [OF this, of "ts_ns p" "fin @ [b\<lparr>end_ns := prev\<rparr>]"]
    show ?thesis unfolding eq by simp
  next
    case False
    let ?b = "b\<lparr>bytes := (bytes b + len p) mod 2 ^ 32, b_packets := (b_packets b + 1) mod 2 ^ 32\<rparr>"
    from False have eq: "burst_loop prev fin b (p # ps) = burst_loop (ts_ns p) fin ?b ps"
      by auto
    from Cons.prems have m: "(b_packets b + 1) mod 2 ^ 32 = b_packets b + 1" by simp
    with Cons.prems have "b_packets ?b + length ps < 2 ^ 32" by simp
    from Cons.IH [OF this, of "ts_ns p" fin] m
    show ?thesis unfolding eq by simp
  qed
qed

lemma bursts_ordered_snoc:
  "bursts_ordered (bs @ [b]) \<longleftrightarrow>
     bursts_ordered bs \<and> start_ns b \<le> end_ns b \<and> (\<forall>a\<in>set bs. end_ns a < start_ns b)"
  by (auto simp: bursts_ordered_def sorted_wrt_append)

lemma burst_loop_ordered:
  assumes "sorted (prev # map ts_ns ps)" "list_all (\<lambda>p. ts_ns p < 2 ^ 64) ps"
    and "bursts_ordered fin" "\<forall>a\<in>set fin. end_ns a < start_ns b" "start_ns b \<le> prev"
  shows "bursts_ordered (burst_loop prev fin b ps)"
  using assms
proof (induction ps arbitrary: prev fin b)
  case Nil
  then show ?case by (simp add: bursts_ordered_snoc)
next
  case (Cons p ps)
  from Cons.prems have le: "prev \<le> ts_ns p" and lt: "ts_ns p < 2 ^ 64"
    and srt: "sorted (ts_ns p # map ts_ns ps)" and all: "list_all (\<lambda>p. ts_ns p < 2 ^ 64) ps"
    by simp_all
  show ?case
  proof (cases "sub64 (ts_ns p) prev > BURST_GAP_THRESHOLD_US * 1000 \<and> length fin + 1 < MAX_BURSTS")
    case True
    let ?nb = "\<lparr>start_ns = ts_ns p, end_ns = 0, bytes = len p, b_packets = 1\<rparr>"
    let ?fin = "fin @ [b\<lparr>end_ns := prev\<rparr>]"
    from True le lt have "BURST_GAP_THRESHOLD_US * 1000 < ts_ns p - prev" by (simp add: sub64_le)
    then have gap: "prev < ts_ns p" by arith
    from True have eq: "burst_loop prev fin b (p # ps)
        = burst_loop (ts_ns p) (fin @ [b\<lparr>end_ns := prev\<rparr>]) ?nb ps" by simp
    from Cons.prems have o: "bursts_ordered ?fin" by (simp add: bursts_ordered_snoc)
    from Cons.prems gap have e: "\<forall>a\<in>set ?fin. end_ns a < start_ns ?nb" by fastforce
    have "bursts_ordered (burst_loop (ts_ns p) ?fin ?nb ps)"
      by (rule Cons.IH [OF srt all o e]) simp
    then show ?thesis unfolding eq .
  next
    case False
    let ?b = "b\<lparr>bytes := (bytes b + len p) mod 2 ^ 32, b_packets := (b_packets b + 1) mod 2 ^ 32\<rparr>"
    from False have eq: "burst_loop prev fin b (p # ps) = burst_loop (ts_ns p) fin ?b ps"
      by auto
    from Cons.prems have e: "\<forall>a\<in>set fin. end_ns a < start_ns ?b" by simp
    from Cons.prems le have s: "start_ns ?b \<le> ts_ns p" by simp
    have "bursts_ordered (burst_loop (ts_ns p) fin ?b ps)"
      by (rule Cons.IH [OF srt all Cons.prems(3) e s])
    then show ?thesis unfolding eq .
  qed
qed

lemma burst_loop_length: "length fin + 1 \<le> length (burst_loop prev fin b ps)"
proof (induction ps arbitrary: prev fin b)
  case Nil
  then show ?case by simp
next
  case (Cons p ps)
  show ?case
  proof (cases "sub64 (ts_ns p) prev > BURST_GAP_THRESHOLD_US * 1000 \<and> length fin + 1 < MAX_BURSTS")
    case True
    let ?nb = "\<lparr>start_ns = ts_ns p, end_ns = 0, bytes = len p, b_packets = 1\<rparr>"
    from True have eq: "burst_loop prev fin b (p # ps)
        = burst_loop (ts_ns p) (fin @ [b\<lparr>end_ns := prev\<rparr>]) ?nb ps" by simp
    from Cons.IH [of "fin @ [b\<lparr>end_ns := prev\<rparr>]" "ts_ns p" ?nb]
    show ?thesis unfolding eq by simp
  next
    case False
    let ?b = "b\<lparr>bytes := (bytes b + len p) mod 2 ^ 32, b_packets := (b_packets b + 1) mod 2 ^ 32\<rparr>"
    from False have eq: "burst_loop prev fin b (p # ps) = burst_loop (ts_ns p) fin ?b ps"
      by auto
    from Cons.IH [of fin "ts_ns p" ?b] show ?thesis unfolding eq .
  qed
qed

lemma tsn_burst_loop_below_cap:
  "length (burst_loop prev fin b ps) < TSN_MAX_BURSTS \<Longrightarrow>
   tsn_burst_loop (last (prev # map ts_ns ps)) prev fin b ps = burst_loop prev fin b ps"
proof (induction ps arbitrary: prev fin b)
  case Nil
  then show ?case by simp
next
  case (Cons p ps)
  from Cons.prems burst_loop_length [of fin prev b "p # ps"]
  have cap: "length fin + 1 < TSN_MAX_BURSTS" by simp
  then have cap': "length fin + 1 < MAX_BURSTS" by (simp add: TSN_MAX_BURSTS_def MAX_BURSTS_def)
  have l: "last (prev # map ts_ns (p # ps)) = last (ts_ns p # map ts_ns ps)" by simp
  show ?case
  proof (cases "sub64 (ts_ns p) prev > 500000")
    case True
    let ?nb = "\<lparr>start_ns = ts_ns p, end_ns = 0, bytes = len p, b_packets = 1\<rparr>"
    let ?fin = "fin @ [b\<lparr>end_ns := prev\<rparr>]"
    from True cap' have eq: "burst_loop prev fin b (p # ps) = burst_loop (ts_ns p) ?fin ?nb ps"
      by (simp add: BURST_GAP_THRESHOLD_US_def)
    from True cap have eq': "tsn_burst_loop (last (ts_ns p # map ts_ns ps)) prev fin b (p # ps)
        = tsn_burst_loop (last (ts_ns p # map ts_ns ps)) (ts_ns p) ?fin ?nb ps"
      by simp
    from Cons.prems have "length (burst_loop (ts_ns p) ?fin ?nb ps) < TSN_MAX_BURSTS"
      unfolding eq .
    from Cons.IH [OF this] show ?thesis unfolding l eq eq' .
  next
    case False
    let ?b = "b\<lparr>bytes := (bytes b + len p) mod 2 ^ 32, b_packets := (b_packets b + 1) mod 2 ^ 32\<rparr>"
    from False have eq: "burst_loop prev fin b (p # ps) = burst_loop (ts_ns p) fin ?b ps"
      by (simp add: BURST_GAP_THRESHOLD_US_def)
    from False cap have eq': "tsn_burst_loop (last (ts_ns p # map ts_ns ps)) prev fin b (p # ps)
        = tsn_burst_loop (last (ts_ns p # map ts_ns ps)) (ts_ns p) fin ?b ps"
      by simp
    from Cons.prems have "length (burst_loop (ts_ns p) fin ?b ps) < TSN_MAX_BURSTS"
      unfolding eq .
    from Cons.IH [OF this] show ?thesis unfolding l eq eq' .
  qed
qed

lemma tsn_detect_bursts_below_cap:
  assumes "2 \<le> length (packets tc)" "length (bursts (detect_bursts tc)) < TSN_MAX_BURSTS"
  shows "tsn_detect_bursts (packets tc) = bursts (detect_bursts tc)"
proof -
  from assms(1) obtain p0 p1 ps where p: "packets tc = p0 # p1 # ps"
    by (cases "packets tc"; cases "tl (packets tc)") auto
  let ?b0 = "\<lparr>start_ns = ts_ns p0, end_ns = 0, bytes = len p0, b_packets = 1\<rparr>"
  from p have db: "bursts (detect_bursts tc) = burst_loop (ts_ns p0) [] ?b0 (p1 # ps)"
    by (simp add: detect_bursts_def)
  from p have "tsn_detect_bursts (packets tc)
      = tsn_burst_loop (last (ts_ns p0 # map ts_ns (p1 # ps))) (ts_ns p0) [] ?b0 (p1 # ps)"
    by (simp add: tsn_detect_bursts_def last_map)
  also from assms(2) have "\<dots> = burst_loop (ts_ns p0) [] ?b0 (p1 # ps)"
    unfolding db by (rule tsn_burst_loop_below_cap)
  finally show ?thesis by (simp only: db)
qed

text \<open>
  C2 (amended), for \<^verbatim>\<open>detect_bursts\<close> on a fresh struct. With at least 2 observations the
  packet counts of the bursts of \<^verbatim>\<open>cbs-estimator.c\<close> sum to the number of observations,
  and when the timestamps do not decrease the bursts are time-ordered and do not overlap;
  \<^verbatim>\<open>tsn-verify.c\<close> yields the same bursts whenever there are fewer than 5000 of them.
  With fewer than 2 observations the burst list is empty.
\<close>

theorem C2_bursts:
  assumes "fresh_store tc"
  shows "(2 \<le> length (packets tc) \<longrightarrow>
            sum_list (map b_packets (bursts (detect_bursts tc))) = length (packets tc) \<and>
            (sorted (map ts_ns (packets tc)) \<longrightarrow> bursts_ordered (bursts (detect_bursts tc))) \<and>
            (length (bursts (detect_bursts tc)) < TSN_MAX_BURSTS \<longrightarrow>
               tsn_detect_bursts (packets tc) = bursts (detect_bursts tc))) \<and>
         (length (packets tc) < 2 \<longrightarrow>
            bursts (detect_bursts tc) = [] \<and> tsn_detect_bursts (packets tc) = [])"
proof (cases "packets tc")
  case Nil
  with assms show ?thesis by (simp add: detect_bursts_def fresh_store_def tsn_detect_bursts_def)
next
  case (Cons p0 rest)
  note c0 = this
  show ?thesis
  proof (cases rest)
    case Nil
    with c0 assms show ?thesis
      by (simp add: detect_bursts_def fresh_store_def tsn_detect_bursts_def)
  next
    case (Cons p1 ps)
    let ?b0 = "\<lparr>start_ns = ts_ns p0, end_ns = 0, bytes = len p0, b_packets = 1\<rparr>"
    from c0 Cons have two: "2 \<le> length (packets tc)" by simp
    from c0 Cons have db: "bursts (detect_bursts tc) = burst_loop (ts_ns p0) [] ?b0 (p1 # ps)"
      by (simp add: detect_bursts_def)
    from assms c0 Cons have "b_packets ?b0 + length (p1 # ps) < 2 ^ 32"
      by (simp add: fresh_store_def MAX_PACKETS_def)
    from burst_loop_packets [OF this, of "ts_ns p0" "[]"] c0 Cons db
    have sum: "sum_list (map b_packets (bursts (detect_bursts tc))) = length (packets tc)"
      by simp
    have ord: "bursts_ordered (bursts (detect_bursts tc))" if "sorted (map ts_ns (packets tc))"
    proof -
      from that c0 Cons have s: "sorted (ts_ns p0 # map ts_ns (p1 # ps))" by simp
      from assms c0 Cons have a: "list_all (\<lambda>p. ts_ns p < 2 ^ 64) (p1 # ps)"
        by (simp add: fresh_store_def)
      have "bursts_ordered (burst_loop (ts_ns p0) [] ?b0 (p1 # ps))"
        by (rule burst_loop_ordered [OF s a]) (simp_all add: bursts_ordered_def)
      with db show ?thesis by simp
    qed
    from sum ord tsn_detect_bursts_below_cap [OF two] two show ?thesis by auto
  qed
qed

text \<open>The theorem at a three-packet input and at the empty struct.\<close>

theorem C2_bursts_witness:
  "fresh_store two_bursts_input \<and>
   bursts (detect_bursts two_bursts_input) =
     [\<lparr>start_ns = 1000000, end_ns = 1100000, bytes = 128, b_packets = 2\<rparr>,
      \<lparr>start_ns = 3000000, end_ns = 3000000, bytes = 64, b_packets = 1\<rparr>] \<and>
   sum_list (map b_packets (bursts (detect_bursts two_bursts_input))) = 3 \<and>
   bursts_ordered (bursts (detect_bursts two_bursts_input)) \<and>
   tsn_detect_bursts (packets two_bursts_input) = bursts (detect_bursts two_bursts_input) \<and>
   bursts (detect_bursts zero_tc) = []"
proof -
  have a: "fresh_store two_bursts_input"
    by (simp add: fresh_store_def two_bursts_input_def zero_tc_def MAX_PACKETS_def)
  have z: "fresh_store zero_tc"
    by (simp add: fresh_store_def zero_tc_def)
  have s: "sorted (map ts_ns (packets two_bursts_input))" "length (packets two_bursts_input) = 3"
    by (simp_all add: two_bursts_input_def zero_tc_def)
  have e: "bursts (detect_bursts two_bursts_input) =
     [\<lparr>start_ns = 1000000, end_ns = 1100000, bytes = 128, b_packets = 2\<rparr>,
      \<lparr>start_ns = 3000000, end_ns = 3000000, bytes = 64, b_packets = 1\<rparr>]"
    by (simp add: detect_bursts_def two_bursts_input_def zero_tc_def sub64_def
        BURST_GAP_THRESHOLD_US_def MAX_BURSTS_def)
  then have c: "length (bursts (detect_bursts two_bursts_input)) < TSN_MAX_BURSTS"
    by (simp add: TSN_MAX_BURSTS_def)
  have p: "length (packets zero_tc) < 2" by (simp add: zero_tc_def)
  from C2_bursts [OF a] s c
  have "sum_list (map b_packets (bursts (detect_bursts two_bursts_input))) = 3"
    and "bursts_ordered (bursts (detect_bursts two_bursts_input))"
    and "tsn_detect_bursts (packets two_bursts_input) = bursts (detect_bursts two_bursts_input)"
    by simp_all
  moreover from C2_bursts [OF z] p have "bursts (detect_bursts zero_tc) = []" by simp
  ultimately show ?thesis using a e by simp
qed

text \<open>
  C2 as stated fails for a sequence that is not in timestamp order: the difference of the
  two timestamps wraps around, a new burst starts, and the second burst lies before the
  first.
\<close>

theorem C2_order_counterexample:
  "\<not> bursts_ordered (bursts (detect_bursts out_of_order_input))"
  by (simp add: detect_bursts_def out_of_order_input_def zero_tc_def sub64_def
      BURST_GAP_THRESHOLD_US_def MAX_BURSTS_def bursts_ordered_def)

subsection \<open>Uniformly spaced observations\<close>

lemma capture_packets:
  "list_all valid_obs obs \<Longrightarrow> length obs \<le> MAX_PACKETS \<Longrightarrow>
   packets (capture zero_tc obs) = map packet_of obs"
proof (induction obs rule: rev_induct)
  case Nil
  then show ?case by (simp add: capture_def zero_tc_def)
next
  case (snoc ob obs)
  obtain ts l where ob: "ob = (ts, l)" by (cases ob)
  from snoc.prems have v1: "list_all valid_obs obs" and n: "length obs < MAX_PACKETS"
    and "valid_obs ob" by simp_all
  then have v: "list_all valid_obs obs" "0 < ts" "l < 2 ^ 16"
    by (simp_all add: ob valid_obs_def)
  with snoc.IH n have p: "packets (capture zero_tc obs) = map packet_of obs" by simp
  with n have "length (packets (capture zero_tc obs)) < MAX_PACKETS" by simp
  from store_packet_inv(2) [OF capture_inv [OF v(1)] v(2,3) this] p
  show ?case by (simp add: ob capture_snoc packet_of_def)
qed

lemma capture_bursts: "bursts (capture tc obs) = bursts tc"
proof (induction obs rule: rev_induct)
  case Nil
  then show ?case by (simp add: capture_def)
next
  case (snoc ob obs)
  then show ?case by (cases ob) (simp add: capture_snoc store_packet_def)
qed

lemma uniform_obs_length: "length (uniform_obs t d l n) = n"
  by (induction n arbitrary: t) simp_all

lemma uniform_obs_valid: "0 < t \<Longrightarrow> l < 2 ^ 16 \<Longrightarrow> list_all valid_obs (uniform_obs t d l n)"
  by (induction n arbitrary: t) (simp_all add: valid_obs_def)

lemma uniform_obs_last:
  "last (map packet_of (uniform_obs t d l (Suc n))) = \<lparr>ts_ns = t + n * d, len = l\<rparr>"
proof (induction n arbitrary: t)
  case 0
  then show ?case by (simp add: packet_of_def)
next
  case (Suc n)
  have "last (map packet_of (uniform_obs t d l (Suc (Suc n))))
      = last (map packet_of (uniform_obs (t + d) d l (Suc n)))" by simp
  also have "\<dots> = \<lparr>ts_ns = t + d + n * d, len = l\<rparr>" by (rule Suc.IH)
  finally show ?case by (simp add: algebra_simps)
qed

lemma uniform_gaps_exceed:
  "500000 < d \<Longrightarrow> prev + n * d < 2 ^ 64 \<Longrightarrow>
   gaps_exceed prev (map packet_of (uniform_obs (prev + d) d l n))"
proof (induction n arbitrary: prev)
  case 0
  then show ?case by simp
next
  case (Suc n)
  from Suc.prems have "prev + d < 2 ^ 64" by simp
  then have "sub64 (prev + d) prev = d" by (simp add: sub64_le)
  moreover from Suc.prems have "prev + d + n * d < 2 ^ 64" by (simp add: algebra_simps)
  ultimately show ?case using Suc.IH [of "prev + d"] Suc.prems(1) by (simp add: packet_of_def)
qed

lemma uniform_gaps_within:
  "d \<le> 500000 \<Longrightarrow> prev + n * d < 2 ^ 64 \<Longrightarrow>
   gaps_within prev (map packet_of (uniform_obs (prev + d) d l n))"
proof (induction n arbitrary: prev)
  case 0
  then show ?case by simp
next
  case (Suc n)
  from Suc.prems have "prev + d < 2 ^ 64" by simp
  then have "sub64 (prev + d) prev = d" by (simp add: sub64_le)
  moreover from Suc.prems have "prev + d + n * d < 2 ^ 64" by (simp add: algebra_simps)
  ultimately show ?case using Suc.IH [of "prev + d"] Suc.prems(1) by (simp add: packet_of_def)
qed

lemma burst_loop_gaps_exceed:
  "gaps_exceed prev ps \<Longrightarrow> length fin + 1 + length ps \<le> MAX_BURSTS \<Longrightarrow>
   burst_loop prev fin b ps = fin @ [b\<lparr>end_ns := prev\<rparr>] @ map single_burst ps"
proof (induction ps arbitrary: prev fin b)
  case Nil
  then show ?case by simp
next
  case (Cons p ps)
  let ?nb = "\<lparr>start_ns = ts_ns p, end_ns = 0, bytes = len p, b_packets = 1\<rparr>"
  from Cons.prems have c: "sub64 (ts_ns p) prev > BURST_GAP_THRESHOLD_US * 1000 \<and> length fin + 1 < MAX_BURSTS"
    by (simp add: BURST_GAP_THRESHOLD_US_def)
  then have eq: "burst_loop prev fin b (p # ps)
      = burst_loop (ts_ns p) (fin @ [b\<lparr>end_ns := prev\<rparr>]) ?nb ps" by simp
  from Cons.prems have "gaps_exceed (ts_ns p) ps"
    and "length (fin @ [b\<lparr>end_ns := prev\<rparr>]) + 1 + length ps \<le> MAX_BURSTS" by simp_all
  from Cons.IH [OF this] show ?case unfolding eq by (simp add: single_burst_def)
qed

lemma burst_loop_gaps_within:
  "gaps_within prev ps \<Longrightarrow> bytes b < 2 ^ 32 \<Longrightarrow> b_packets b < 2 ^ 32 \<Longrightarrow>
   burst_loop prev fin b ps =
     fin @ [b\<lparr>bytes := (bytes b + sum_list (map len ps)) mod 2 ^ 32,
               b_packets := (b_packets b + length ps) mod 2 ^ 32,
               end_ns := last (prev # map ts_ns ps)\<rparr>]"
proof (induction ps arbitrary: prev b)
  case Nil
  then show ?case by simp
next
  case (Cons p ps)
  let ?b = "b\<lparr>bytes := (bytes b + len p) mod 2 ^ 32, b_packets := (b_packets b + 1) mod 2 ^ 32\<rparr>"
  from Cons.prems have c: "\<not> (sub64 (ts_ns p) prev > BURST_GAP_THRESHOLD_US * 1000 \<and> length fin + 1 < MAX_BURSTS)"
    by (simp add: BURST_GAP_THRESHOLD_US_def)
  then have eq: "burst_loop prev fin b (p # ps) = burst_loop (ts_ns p) fin ?b ps" by auto
  from Cons.prems have g: "gaps_within (ts_ns p) ps" by simp
  have b1: "bytes ?b < 2 ^ 32" and b2: "b_packets ?b < 2 ^ 32" by simp_all
  have m1: "((bytes b + len p) mod 2 ^ 32 + sum_list (map len ps)) mod 2 ^ 32
      = (bytes b + (len p + sum_list (map len ps))) mod 2 ^ 32"
    by (simp add: mod_add_left_eq add.assoc)
  have m2: "((b_packets b + 1) mod 2 ^ 32 + length ps) mod 2 ^ 32
      = (b_packets b + Suc (length ps)) mod 2 ^ 32"
    by (simp add: mod_add_left_eq)
  from Cons.IH [OF g b1 b2] m1 m2 show ?case unfolding eq by simp
qed

lemma detect_bursts_fields:
  "packets (detect_bursts tc) = packets tc" "first_ts (detect_bursts tc) = first_ts tc"
  "last_ts (detect_bursts tc) = last_ts tc" "total_bytes (detect_bursts tc) = total_bytes tc"
  by (simp_all add: detect_bursts_def split: list.splits)

lemma sub64_self: "t < 2 ^ 64 \<Longrightarrow> sub64 t t = 0"
  using sub64_le [of t t] by simp

lemma burst_stats_singles:
  "t + n * d < 2 ^ 64 \<Longrightarrow>
   burst_stats tb tg mb (map single_burst (map packet_of (uniform_obs t d l (Suc n))))
     = (tb, tg + real (n * d) / 1000, if real l > mb then real l else mb)"
proof (induction n arbitrary: t tb tg mb)
  case 0
  then show ?case by (simp add: single_burst_def packet_of_def sub64_self)
next
  case (Suc n)
  from Suc.prems have t: "t < 2 ^ 64" and td: "t + d < 2 ^ 64" and r: "t + d + n * d < 2 ^ 64"
    by (simp_all add: algebra_simps)
  from td have g: "sub64 (t + d) t = d" by (simp add: sub64_le)
  let ?rest = "map single_burst (map packet_of (uniform_obs (t + d) d l (Suc n)))"
  have "burst_stats tb tg mb (map single_burst (map packet_of (uniform_obs t d l (Suc (Suc n)))))
      = burst_stats tb (tg + real d / 1000) (if real l > mb then real l else mb) ?rest"
    by (simp add: single_burst_def packet_of_def sub64_self [OF t] g)
  also have "\<dots> = (tb, tg + real d / 1000 + real (n * d) / 1000,
      if real l > (if real l > mb then real l else mb) then real l else (if real l > mb then real l else mb))"
    by (rule Suc.IH [OF r])
  finally show ?case by (simp add: algebra_simps add_divide_distrib)
qed

lemma capture_uniform:
  assumes "0 < t" "l < 2 ^ 16" "Suc n \<le> MAX_PACKETS"
  shows "packets (capture zero_tc (uniform_obs t d l (Suc n))) = map packet_of (uniform_obs t d l (Suc n))"
    and "first_ts (capture zero_tc (uniform_obs t d l (Suc n))) = t"
    and "last_ts (capture zero_tc (uniform_obs t d l (Suc n))) = t + n * d"
    and "bursts (capture zero_tc (uniform_obs t d l (Suc n))) = []"
proof -
  let ?obs = "uniform_obs t d l (Suc n)"
  have v: "list_all valid_obs ?obs" by (rule uniform_obs_valid [OF assms(1,2)])
  from assms(3) have "length ?obs \<le> MAX_PACKETS" by (simp only: uniform_obs_length)
  from capture_packets [OF v this]
  show p: "packets (capture zero_tc ?obs) = map packet_of ?obs" .
  from capture_inv [OF v] have c: "store_consistent (capture zero_tc ?obs)"
    by (simp add: store_inv_def)
  from c p show "first_ts (capture zero_tc ?obs) = t"
    by (simp add: store_consistent_def packet_of_def)
  from c p have "last_ts (capture zero_tc ?obs) = ts_ns (last (map packet_of ?obs))"
    by (simp add: store_consistent_def)
  then show "last_ts (capture zero_tc ?obs) = t + n * d"
    by (simp only: uniform_obs_last packet.simps)
  show "bursts (capture zero_tc ?obs) = []"
    by (simp add: capture_bursts zero_tc_def)
qed

lemma detect_bursts_exceed:
  assumes "0 < t" "l < 2 ^ 16" "Suc (Suc n) \<le> MAX_BURSTS" "500000 < d" "t + Suc n * d < 2 ^ 64"
  shows "bursts (detect_bursts (capture zero_tc (uniform_obs t d l (Suc (Suc n)))))
     = map single_burst (map packet_of (uniform_obs t d l (Suc (Suc n))))"
proof -
  let ?obs = "uniform_obs t d l (Suc (Suc n))"
  let ?b0 = "\<lparr>start_ns = t, end_ns = 0, bytes = l, b_packets = 1\<rparr>"
  from assms(3) have "Suc (Suc n) \<le> MAX_PACKETS" by (simp add: MAX_BURSTS_def MAX_PACKETS_def)
  from capture_uniform(1) [OF assms(1,2) this]
  have p: "packets (capture zero_tc ?obs) = map packet_of ?obs" .
  then have "bursts (detect_bursts (capture zero_tc ?obs))
      = burst_loop t [] ?b0 (map packet_of (uniform_obs (t + d) d l (Suc n)))"
    by (simp add: detect_bursts_def packet_of_def)
  also have "\<dots> = [] @ [?b0\<lparr>end_ns := t\<rparr>] @ map single_burst (map packet_of (uniform_obs (t + d) d l (Suc n)))"
  proof (rule burst_loop_gaps_exceed)
    show "gaps_exceed t (map packet_of (uniform_obs (t + d) d l (Suc n)))"
      by (rule uniform_gaps_exceed [OF assms(4,5)])
    from assms(3) show "length [] + 1 + length (map packet_of (uniform_obs (t + d) d l (Suc n))) \<le> MAX_BURSTS"
      by (simp add: uniform_obs_length)
  qed
  finally show ?thesis by (simp add: single_burst_def packet_of_def)
qed

lemma detect_bursts_within:
  assumes "0 < t" "l < 2 ^ 16" "Suc (Suc n) \<le> MAX_PACKETS" "d \<le> 500000" "t + Suc n * d < 2 ^ 64"
  shows "bursts (detect_bursts (capture zero_tc (uniform_obs t d l (Suc (Suc n)))))
     = [\<lparr>start_ns = t, end_ns = t + Suc n * d,
         bytes = (l + sum_list (map len (map packet_of (uniform_obs (t + d) d l (Suc n))))) mod 2 ^ 32,
         b_packets = Suc (Suc n)\<rparr>]"
proof -
  let ?obs = "uniform_obs t d l (Suc (Suc n))"
  let ?rest = "map packet_of (uniform_obs (t + d) d l (Suc n))"
  let ?b0 = "\<lparr>start_ns = t, end_ns = 0, bytes = l, b_packets = 1\<rparr>"
  from capture_uniform(1) [OF assms(1,2,3)]
  have p: "packets (capture zero_tc ?obs) = map packet_of ?obs" .
  then have "bursts (detect_bursts (capture zero_tc ?obs)) = burst_loop t [] ?b0 ?rest"
    by (simp add: detect_bursts_def packet_of_def)
  also have "\<dots> = [] @ [?b0\<lparr>bytes := (bytes ?b0 + sum_list (map len ?rest)) mod 2 ^ 32,
               b_packets := (b_packets ?b0 + length ?rest) mod 2 ^ 32,
               end_ns := last (t # map ts_ns ?rest)\<rparr>]"
  proof (rule burst_loop_gaps_within)
    show "gaps_within t ?rest" by (rule uniform_gaps_within [OF assms(4,5)])
    from assms(2) show "bytes ?b0 < 2 ^ 32" by simp
    show "b_packets ?b0 < 2 ^ 32" by simp
  qed
  also have "last (t # map ts_ns ?rest) = ts_ns (last ?rest)"
    by (simp add: last_map)
  also have "last ?rest = \<lparr>ts_ns = t + d + n * d, len = l\<rparr>" by (rule uniform_obs_last)
  also from assms(3) have "(b_packets ?b0 + length ?rest) mod 2 ^ 32 = Suc (Suc n)"
    by (simp add: uniform_obs_length MAX_PACKETS_def)
  finally show ?thesis by (simp add: algebra_simps)
qed

subsection \<open>The CBS estimator\<close>

lemma analyze_cbs_run:
  assumes "10 \<le> length (packets tc)" "1 \<le> length (bursts tc)" "0 < total_duration_s tc"
    and "burst_stats 0 0 0 (bursts tc) = (tb, tg, mb)"
  shows "burst_ratio (analyze_cbs tc) = tb / (total_duration_s tc * 1000000)"
    and "avg_gap_duration_us (analyze_cbs tc)
           = (if length (bursts tc) > 1 then tg / real (length (bursts tc) - 1) else 0)"
    and "is_shaped (analyze_cbs tc)
           \<longleftrightarrow> avg_gap_duration_us (analyze_cbs tc) > 100 \<and> length (bursts tc) > 3 \<and>
               burst_ratio (analyze_cbs tc) < 0.85"
    and "bursts (analyze_cbs tc) = bursts tc"
    and "measured_bps (analyze_cbs tc) = real (total_bytes tc) * 8 / total_duration_s tc"
    and "estimated_idle_slope (analyze_cbs tc) = measured_bps (analyze_cbs tc)"
    and "max_burst_bytes (analyze_cbs tc) = mb"
proof -
  from assms(2) have ne: "bursts tc \<noteq> []" by auto
  from assms(1,3,4) ne
  show "burst_ratio (analyze_cbs tc) = tb / (total_duration_s tc * 1000000)"
    and "avg_gap_duration_us (analyze_cbs tc)
           = (if length (bursts tc) > 1 then tg / real (length (bursts tc) - 1) else 0)"
    and "is_shaped (analyze_cbs tc)
           \<longleftrightarrow> avg_gap_duration_us (analyze_cbs tc) > 100 \<and> length (bursts tc) > 3 \<and>
               burst_ratio (analyze_cbs tc) < 0.85"
    and "bursts (analyze_cbs tc) = bursts tc"
    and "measured_bps (analyze_cbs tc) = real (total_bytes tc) * 8 / total_duration_s tc"
    and "estimated_idle_slope (analyze_cbs tc) = measured_bps (analyze_cbs tc)"
    and "max_burst_bytes (analyze_cbs tc) = mb"
    by (simp_all add: analyze_cbs_def Let_def)
qed

lemma analyze_cbs_skip:
  "length (packets tc) < 10 \<or> length (bursts tc) < 1 \<or> total_duration_s tc \<le> 0 \<Longrightarrow>
   analyze_cbs tc = tc"
  by (auto simp: analyze_cbs_def)

lemma uniform_duration:
  assumes "0 < t" "l < 2 ^ 16" "Suc (Suc n) \<le> MAX_PACKETS" "t + Suc n * d < 2 ^ 64"
  shows "total_duration_s (detect_bursts (capture zero_tc (uniform_obs t d l (Suc (Suc n)))))
     = real (Suc n * d) / 1000000000"
proof -
  let ?d = "detect_bursts (capture zero_tc (uniform_obs t d l (Suc (Suc n))))"
  have f: "first_ts ?d = t" and e: "last_ts ?d = t + Suc n * d"
    by (simp_all only: detect_bursts_fields capture_uniform [OF assms(1,2,3)])
  from assms(4) have "sub64 (t + Suc n * d) t = t + Suc n * d - t"
    by (intro sub64_le) simp_all
  then have "sub64 (t + Suc n * d) t = Suc n * d" by (simp only: diff_add_inverse)
  then show ?thesis by (simp only: total_duration_s_def f e)
qed

lemma mean_gap_cancel: "real (Suc n * d) / 1000 / real (Suc n) = real d / 1000"
proof -
  have c: "a * b / 1000 / a = b / 1000" if "a \<noteq> 0" for a b :: real
    using that by simp
  have "real (Suc n) \<noteq> 0" by simp
  from c [OF this, of "real d"] show ?thesis by (simp only: of_nat_mult)
qed

lemma analyze_exceed:
  assumes "0 < t" "l < 2 ^ 16" "Suc (Suc n) \<le> MAX_BURSTS" "500000 < d" "t + Suc n * d < 2 ^ 64"
    and "10 \<le> Suc (Suc n)"
  defines "tc \<equiv> analyze_class (capture zero_tc (uniform_obs t d l (Suc (Suc n))))"
  shows "length (bursts tc) = Suc (Suc n)" and "burst_ratio tc = 0" and "is_shaped tc"
proof -
  let ?obs = "uniform_obs t d l (Suc (Suc n))"
  let ?d = "detect_bursts (capture zero_tc ?obs)"
  from assms(3) have mp: "Suc (Suc n) \<le> MAX_PACKETS" by (simp add: MAX_BURSTS_def MAX_PACKETS_def)
  have p: "packets ?d = map packet_of ?obs"
    by (simp only: detect_bursts_fields capture_uniform(1) [OF assms(1,2) mp])
  then have lp: "length (packets ?d) = Suc (Suc n)" by (simp only: length_map uniform_obs_length)
  have b: "bursts ?d = map single_burst (map packet_of ?obs)"
    by (rule detect_bursts_exceed [OF assms(1-5)])
  then have lb: "length (bursts ?d) = Suc (Suc n)" by (simp only: length_map uniform_obs_length)
  have dur: "total_duration_s ?d = real (Suc n * d) / 1000000000"
    by (rule uniform_duration [OF assms(1,2) mp assms(5)])
  from assms(4) have "0 < Suc n * d" by simp
  then have pos: "0 < real (Suc n * d)" by (simp only: of_nat_0_less_iff)
  with dur have dpos: "0 < total_duration_s ?d" by simp
  have st: "burst_stats 0 0 0 (bursts ?d)
      = (0, 0 + real (Suc n * d) / 1000, if real l > 0 then real l else 0)"
    unfolding b by (rule burst_stats_singles [OF assms(5)])
  from assms(6) lp have ten: "10 \<le> length (packets ?d)" by simp
  from lb have one: "1 \<le> length (bursts ?d)" by simp
  note run = analyze_cbs_run [OF ten one dpos st]
  from lp have tc: "tc = analyze_cbs ?d"
    by (simp add: tc_def analyze_class_def capture_uniform(1) [OF assms(1,2) mp] uniform_obs_length
        del: uniform_obs.simps)
  show "length (bursts tc) = Suc (Suc n)" by (simp only: tc run(4) lb)
  show r: "burst_ratio tc = 0" by (simp add: tc run(1) del: uniform_obs.simps)
  from lb have "avg_gap_duration_us tc = real (Suc n * d) / 1000 / real (Suc n)"
    by (simp add: tc run(2) del: uniform_obs.simps)
  then have "avg_gap_duration_us tc = real d / 1000" by (simp only: mean_gap_cancel)
  with assms(4) have g: "avg_gap_duration_us tc > 100" by simp
  from assms(6) lb have "length (bursts ?d) > 3" by simp
  with g r show "is_shaped tc" by (simp add: tc run(3) del: uniform_obs.simps)
qed

lemma analyze_cbs_store:
  "first_ts (analyze_cbs tc) = first_ts tc" "last_ts (analyze_cbs tc) = last_ts tc"
  by (simp_all add: analyze_cbs_def Let_def split: prod.splits)

lemma analyze_within:
  assumes "0 < t" "l < 2 ^ 16" "Suc (Suc n) \<le> MAX_PACKETS" "0 < d" "d \<le> 500000"
    and "t + Suc n * d < 2 ^ 64" and "10 \<le> Suc (Suc n)"
  defines "tc \<equiv> analyze_class (capture zero_tc (uniform_obs t d l (Suc (Suc n))))"
  shows "length (bursts tc) = 1"
    and "start_ns (hd (bursts tc)) = first_ts tc \<and> end_ns (hd (bursts tc)) = last_ts tc"
    and "\<not> is_shaped tc"
proof -
  let ?obs = "uniform_obs t d l (Suc (Suc n))"
  let ?d = "detect_bursts (capture zero_tc ?obs)"
  let ?bytes = "(l + sum_list (map len (map packet_of (uniform_obs (t + d) d l (Suc n))))) mod 2 ^ 32"
  let ?b = "\<lparr>start_ns = t, end_ns = t + Suc n * d, bytes = ?bytes, b_packets = Suc (Suc n)\<rparr>"
  have p: "packets ?d = map packet_of ?obs"
    by (simp only: detect_bursts_fields capture_uniform(1) [OF assms(1,2,3)])
  then have lp: "length (packets ?d) = Suc (Suc n)" by (simp only: length_map uniform_obs_length)
  have b: "bursts ?d = [?b]"
    by (rule detect_bursts_within [OF assms(1,2,3) assms(5,6)])
  then have lb: "length (bursts ?d) = 1" by simp
  have f: "first_ts ?d = t" and e: "last_ts ?d = t + Suc n * d"
    by (simp_all only: detect_bursts_fields capture_uniform [OF assms(1,2,3)])
  have dur: "total_duration_s ?d = real (Suc n * d) / 1000000000"
    by (rule uniform_duration [OF assms(1,2,3) assms(6)])
  from assms(4) have "0 < Suc n * d" by simp
  then have pos: "0 < real (Suc n * d)" by (simp only: of_nat_0_less_iff)
  with dur have dpos: "0 < total_duration_s ?d" by simp
  from assms(6) have "sub64 (t + Suc n * d) t = t + Suc n * d - t"
    by (intro sub64_le) simp_all
  then have st: "burst_stats 0 0 0 (bursts ?d)
      = (real (Suc n * d) / 1000, 0, if real ?bytes > 0 then real ?bytes else 0)"
    unfolding b by simp
  from assms(7) lp have ten: "10 \<le> length (packets ?d)" by simp
  from lb have one: "1 \<le> length (bursts ?d)" by simp
  note run = analyze_cbs_run [OF ten one dpos st]
  from lp have tc: "tc = analyze_cbs ?d"
    by (simp add: tc_def analyze_class_def capture_uniform(1) [OF assms(1,2,3)] uniform_obs_length
        del: uniform_obs.simps)
  show "length (bursts tc) = 1" by (simp only: tc run(4) lb)
  have "bursts tc = [?b]" by (simp only: tc run(4) b)
  then show "start_ns (hd (bursts tc)) = first_ts tc \<and> end_ns (hd (bursts tc)) = last_ts tc"
    by (simp add: tc analyze_cbs_store f e del: uniform_obs.simps)
  from lb show "\<not> is_shaped tc" by (simp add: tc run(3) del: uniform_obs.simps)
qed

text \<open>
  C5 (amended). 1000 observations at a uniform spacing, captured into a zeroed struct and
  analysed. At a spacing of 1 ms every gap exceeds the threshold of 500 us: there are 1000
  bursts of one packet, \<^verbatim>\<open>burst_ratio\<close> is 0 and the class is classified as shaped. At a
  spacing of at most 500 us there is one burst, which runs from the first to the last
  observation, and the class is not classified as shaped. The burst time and the observed
  time then are the same number of nanoseconds; \<^verbatim>\<open>burst_ratio\<close> is their quotient, which
  the code computes in \<^verbatim>\<open>double\<close> with a rounding at each of its four operations, and no
  value of it is stated.
\<close>

theorem C5_uniform:
  assumes "0 < t" and "l < 2 ^ 16" and "t + 999 * 1000000 < 2 ^ 64"
  shows "(let tc = analyze_class (capture zero_tc (uniform_obs t 1000000 l 1000))
          in length (bursts tc) = 1000 \<and> burst_ratio tc = 0 \<and> is_shaped tc) \<and>
         (\<forall>d. 0 < d \<and> d \<le> 500000 \<longrightarrow>
            (let tc = analyze_class (capture zero_tc (uniform_obs t d l 1000))
             in length (bursts tc) = 1 \<and>
                start_ns (hd (bursts tc)) = first_ts tc \<and> end_ns (hd (bursts tc)) = last_ts tc \<and>
                \<not> is_shaped tc))"
proof -
  have n: "(1000::nat) = Suc (Suc 998)" by simp
  have a: "Suc (Suc 998) \<le> MAX_BURSTS" "Suc (Suc 998) \<le> MAX_PACKETS" "(10::nat) \<le> Suc (Suc 998)"
    by (simp_all add: MAX_BURSTS_def MAX_PACKETS_def)
  from assms(3) have s: "t + Suc 998 * 1000000 < 2 ^ 64" by simp
  have e: "(500000::nat) < 1000000" by simp
  note ex = analyze_exceed [OF assms(1,2) a(1) e s a(3)]
  have w: "length (bursts (analyze_class (capture zero_tc (uniform_obs t d l (Suc (Suc 998)))))) = 1 \<and>
      start_ns (hd (bursts (analyze_class (capture zero_tc (uniform_obs t d l (Suc (Suc 998)))))))
        = first_ts (analyze_class (capture zero_tc (uniform_obs t d l (Suc (Suc 998))))) \<and>
      end_ns (hd (bursts (analyze_class (capture zero_tc (uniform_obs t d l (Suc (Suc 998)))))))
        = last_ts (analyze_class (capture zero_tc (uniform_obs t d l (Suc (Suc 998))))) \<and>
      \<not> is_shaped (analyze_class (capture zero_tc (uniform_obs t d l (Suc (Suc 998)))))"
    if "0 < d" "d \<le> 500000" for d
  proof -
    from that(2) have "Suc 998 * d \<le> 999 * 1000000" by simp
    with assms(3) have "t + Suc 998 * d < 2 ^ 64" by linarith
    from analyze_within [OF assms(1,2) a(2) that this a(3)] show ?thesis by simp
  qed
  from ex w show ?thesis unfolding n Let_def by simp
qed

text \<open>The theorem for observations that start at 1 ms, at spacings of 1 ms and of 100 us.\<close>

theorem C5_uniform_witness:
  "(let tc = analyze_class (capture zero_tc (uniform_obs 1000000 1000000 64 1000))
    in length (bursts tc) = 1000 \<and> burst_ratio tc = 0 \<and> is_shaped tc) \<and>
   (let tc = analyze_class (capture zero_tc (uniform_obs 1000000 100000 64 1000))
    in length (bursts tc) = 1 \<and>
       start_ns (hd (bursts tc)) = first_ts tc \<and> end_ns (hd (bursts tc)) = last_ts tc \<and>
       \<not> is_shaped tc)"
proof -
  have "(0::nat) < 1000000" "(64::nat) < 2 ^ 16" "(1000000::nat) + 999 * 1000000 < 2 ^ 64"
    by simp_all
  from C5_uniform [OF this] show ?thesis by simp
qed

text \<open>
  C5 as stated fails: at a spacing of 1 ms the gap of 1000000 ns exceeds the threshold of
  500000 ns at every packet, and \<^verbatim>\<open>burst_count\<close> is 1000, not 1.
\<close>

theorem C5_burst_count_counterexample:
  "length (bursts (analyze_class (capture zero_tc (uniform_obs 1000000 1000000 64 1000)))) \<noteq> 1"
proof -
  have n: "(1000::nat) = Suc (Suc 998)" by simp
  have "length (bursts (analyze_class (capture zero_tc (uniform_obs 1000000 1000000 64 (Suc (Suc 998))))))
      = Suc (Suc 998)"
    by (rule analyze_exceed(1)) (simp_all add: MAX_BURSTS_def)
  then show ?thesis unfolding n by simp
qed

lemma printed_classes_iff:
  "i \<in> set (printed_classes tcd) \<longleftrightarrow> i < MAX_TC \<and> 10 \<le> length (packets (tcd i))"
  by (auto simp: printed_classes_def)

lemma analyze_cbs_packets: "packets (analyze_cbs tc) = packets tc"
  by (simp add: analyze_cbs_def Let_def split: prod.splits)

lemma shaped_input_eq:
  "shaped_input = zero_tc\<lparr>packets := map packet_of shaped_obs,
      first_ts := 1000000, last_ts := 7800000, total_bytes := 1200,
      bursts := [\<lparr>start_ns = 1000000, end_ns = 1200000, bytes = 300, b_packets = 3\<rparr>,
                 \<lparr>start_ns = 3200000, end_ns = 3400000, bytes = 300, b_packets = 3\<rparr>,
                 \<lparr>start_ns = 5400000, end_ns = 5600000, bytes = 300, b_packets = 3\<rparr>,
                 \<lparr>start_ns = 7600000, end_ns = 7800000, bytes = 300, b_packets = 3\<rparr>]\<rparr>"
  by (simp add: shaped_input_def shaped_obs_def capture_def store_packet_def zero_tc_def
      MAX_PACKETS_def detect_bursts_def sub64_def BURST_GAP_THRESHOLD_US_def MAX_BURSTS_def
      packet_of_def)

text \<open>
  C9 (amended). For a class with fewer than 10 observations, or without a burst, or with an
  observed duration that is not positive, \<^verbatim>\<open>analyze_cbs\<close> computes nothing: the struct is
  left as it was. A class with fewer than 10 observations has no object in either list of
  the report.
\<close>

theorem C9_no_estimate:
  "(length (packets tc) < 10 \<or> length (bursts tc) < 1 \<or> total_duration_s tc \<le> 0
      \<longrightarrow> analyze_cbs tc = tc) \<and>
   (length (packets (tcd i)) < 10
      \<longrightarrow> i \<notin> set (map row_tc (fst (print_results_json tcd link))) \<and>
          i \<notin> set (map cfg_tc (snd (print_results_json tcd link))))"
proof -
  have "i \<notin> set (printed_classes tcd)" if "length (packets (tcd i)) < 10"
    using that by (simp add: printed_classes_iff)
  then show ?thesis
    using analyze_cbs_skip [of tc]
    by (auto simp: print_results_json_def tc_row_of_def cbs_config_of_def Let_def)
qed

lemma same_ts_class0:
  "analyze_class (capture zero_tc same_ts_obs) =
     zero_tc\<lparr>packets := map packet_of same_ts_obs, first_ts := 1000000, last_ts := 1000000,
             total_bytes := 640,
             bursts := [\<lparr>start_ns = 1000000, end_ns = 1000000, bytes = 640, b_packets = 10\<rparr>]\<rparr>"
  by (simp add: analyze_class_def same_ts_obs_def capture_def store_packet_def zero_tc_def
      MAX_PACKETS_def detect_bursts_def sub64_le BURST_GAP_THRESHOLD_US_def MAX_BURSTS_def
      packet_of_def analyze_cbs_def total_duration_s_def)

text \<open>The theorem at a class that has captured a single packet.\<close>

theorem C9_no_estimate_witness:
  "analyze_cbs (capture zero_tc [(1000000, 64)]) = capture zero_tc [(1000000, 64)] \<and>
   0 \<notin> set (map row_tc (fst (print_results_json (\<lambda>i. capture zero_tc [(1000000, 64)]) 100000000))) \<and>
   0 \<notin> set (map cfg_tc (snd (print_results_json (\<lambda>i. capture zero_tc [(1000000, 64)]) 100000000)))"
proof -
  have l: "length (packets (capture zero_tc [(1000000, 64)])) < 10"
    by (simp add: capture_def store_packet_def zero_tc_def MAX_PACKETS_def)
  from C9_no_estimate [of "capture zero_tc [(1000000, 64)]" "\<lambda>i. capture zero_tc [(1000000, 64)]" 0 100000000] l
  show ?thesis by simp
qed

text \<open>
  C9 as stated fails for a class with 10 observations and an observed duration of 0: no
  estimate is computed, but the report lists the class with the zeroed fields as its
  estimate (idle slope 0, confidence "low").
\<close>

theorem C9_zero_row_counterexample:
  "snd (print_results_json same_ts_input 100000000) =
     [\<lparr>cfg_tc = 0, idle_slope_bps = 0, send_slope_bps = - 100000000, hi_credit_bytes = 0,
       lo_credit_bytes = 0, confidence = ''low''\<rparr>]"
proof -
  have c: "same_ts_input 0 =
     zero_tc\<lparr>packets := map packet_of same_ts_obs, first_ts := 1000000, last_ts := 1000000,
             total_bytes := 640,
             bursts := [\<lparr>start_ns = 1000000, end_ns = 1000000, bytes = 640, b_packets = 10\<rparr>]\<rparr>"
    unfolding same_ts_input_def same_ts_class0 by simp
  have z: "same_ts_input i = zero_tc" if "i \<noteq> 0" for i
    using that by (simp add: same_ts_input_def)
  have "printed_classes same_ts_input = [0]"
    by (simp add: printed_classes_def MAX_TC_def upt_conv_Cons c z zero_tc_def same_ts_obs_def)
  then show ?thesis
    by (simp add: print_results_json_def c zero_tc_def cbs_config_of_def)
qed

subsection \<open>The cycle detector\<close>

lemma fold_id: "(\<And>x. x \<in> set xs \<Longrightarrow> f x s = s) \<Longrightarrow> fold f xs s = s"
  by (induction xs) simp_all

lemma fold_agree: "(\<And>x. x \<in> set xs \<Longrightarrow> f x = g x) \<Longrightarrow> fold f xs s = fold g xs s"
  by (induction xs arbitrary: s) simp_all

lemma candidate_score_none:
  assumes "\<forall>t<MAX_TC. length (packets (tcd t)) < 100"
  shows "candidate_score tcd cycle = (0, 0)"
  unfolding candidate_score_def
  by (rule fold_id) (use assms in auto)

lemma best_candidate_none:
  assumes "\<forall>t<MAX_TC. length (packets (tcd t)) < 100"
  shows "best_candidate tcd = (0, 0)"
  unfolding best_candidate_def
  by (rule fold_id) (simp add: candidate_score_none [OF assms])

lemma candidate_score_agree:
  assumes "\<forall>t<MAX_TC. 100 \<le> length (packets (tcd t)) \<or> 100 \<le> length (packets (tcd' t))
             \<longrightarrow> tcd t = tcd' t"
  shows "candidate_score tcd cycle = candidate_score tcd' cycle"
  unfolding candidate_score_def
proof (rule fold_agree)
  fix t assume "t \<in> set [0..<MAX_TC]"
  then have t: "t < MAX_TC" by simp
  show "(\<lambda>(total_score, tc_count).
           if length (packets (tcd t)) < 100 then (total_score, tc_count)
           else (total_score + tc_score (tcd t) cycle, tc_count + 1))
      = (\<lambda>(total_score, tc_count).
           if length (packets (tcd' t)) < 100 then (total_score, tc_count)
           else (total_score + tc_score (tcd' t) cycle, tc_count + 1))"
  proof (cases "100 \<le> length (packets (tcd t)) \<or> 100 \<le> length (packets (tcd' t))")
    case True
    with assms t have e: "tcd t = tcd' t" by blast
    show ?thesis unfolding e by (rule refl)
  next
    case False
    then show ?thesis by (simp add: not_le)
  qed
qed

text \<open>
  C8. Without an override (\<open>expected_cycle_ms\<close> not positive), when no class has 100
  packets, \<^verbatim>\<open>detect_cycle_time\<close> returns 0 and \<^verbatim>\<open>main\<close> ends with the error exit instead
  of an analysis. A class with fewer than 100 packets has no influence on the score of
  any candidate: two captures that agree on every class that has 100 packets in either of
  them give every candidate the same \<^verbatim>\<open>total_score\<close> and \<^verbatim>\<open>tc_count\<close>.
\<close>

theorem C8_no_cycle:
  "((\<forall>t<MAX_TC. length (packets (tcd t)) < 100) \<and> expected_cycle_ms \<le> 0 \<longrightarrow>
      detect_cycle_time tcd expected_cycle_ms = 0 \<and>
      tas_main tcd expected_cycle_ms = Inl Could_not_detect_cycle_time) \<and>
   ((\<forall>t<MAX_TC. 100 \<le> length (packets (tcd t)) \<or> 100 \<le> length (packets (tcd' t))
         \<longrightarrow> tcd t = tcd' t) \<longrightarrow>
      (\<forall>cycle. candidate_score tcd cycle = candidate_score tcd' cycle))"
proof (intro conjI impI allI)
  assume a: "(\<forall>t<MAX_TC. length (packets (tcd t)) < 100) \<and> expected_cycle_ms \<le> 0"
  then have "best_candidate tcd = (0, 0)" by (intro best_candidate_none) blast
  with a show z: "detect_cycle_time tcd expected_cycle_ms = 0"
    by (simp add: detect_cycle_time_def)
  then show "tas_main tcd expected_cycle_ms = Inl Could_not_detect_cycle_time"
    by (simp add: tas_main_def)
next
  fix cycle
  assume "\<forall>t<MAX_TC. 100 \<le> length (packets (tcd t)) \<or> 100 \<le> length (packets (tcd' t))
         \<longrightarrow> tcd t = tcd' t"
  then show "candidate_score tcd cycle = candidate_score tcd' cycle"
    by (rule candidate_score_agree)
qed

text \<open>The theorem at an empty capture, and at one more packet in every class.\<close>

theorem C8_no_cycle_witness:
  "detect_cycle_time (\<lambda>t. empty_tc) 0 = 0 \<and>
   tas_main (\<lambda>t. empty_tc) 0 = Inl Could_not_detect_cycle_time \<and>
   candidate_score (\<lambda>t. empty_tc) 10000000
     = candidate_score (\<lambda>t. empty_tc\<lparr>packets := [\<lparr>ts_ns = 1000000, len = 64\<rparr>]\<rparr>) 10000000"
proof -
  have a: "\<forall>t<MAX_TC. length (packets ((\<lambda>t. empty_tc) t)) < 100"
    by (simp add: empty_tc_def)
  have b: "\<forall>t<MAX_TC. 100 \<le> length (packets ((\<lambda>t. empty_tc) t)) \<or>
      100 \<le> length (packets ((\<lambda>t. empty_tc\<lparr>packets := [\<lparr>ts_ns = 1000000, len = 64\<rparr>]\<rparr>) t))
      \<longrightarrow> (\<lambda>t. empty_tc) t = (\<lambda>t. empty_tc\<lparr>packets := [\<lparr>ts_ns = 1000000, len = 64\<rparr>]\<rparr>) t"
    by (simp add: empty_tc_def)
  from C8_no_cycle [of "\<lambda>t. empty_tc" 0 "\<lambda>t. empty_tc\<lparr>packets := [\<lparr>ts_ns = 1000000, len = 64\<rparr>]\<rparr>"] a b
  show ?thesis by simp
qed

subsection \<open>The window detector\<close>

lemma floor_scaled:
  fixes n k :: nat
  shows "\<lfloor>real n / real k\<rfloor> = int (n div k)"
  by (simp add: floor_divide_of_nat_eq)

lemma clamp_max: "(if (x::int) < 1 then 1 else x) = max 1 x"
  by (simp add: max_def)

lemma detect_windows_threshold_floor:
  "detect_windows_threshold tc = max 1 \<lfloor>detect_windows_mean tc * 0.3\<rfloor>"
  by (simp only: detect_windows_threshold_def Let_def clamp_max)

lemma detect_windows_threshold_int:
  "detect_windows_threshold tc
     = max 1 (int (3 * length (packets tc) div (5 * histogram_size tc)))"
proof -
  have "detect_windows_mean tc * 0.3
      = real (3 * length (packets tc)) / real (5 * histogram_size tc)"
    by (simp add: detect_windows_mean_def)
  then show ?thesis by (simp only: detect_windows_threshold_floor floor_scaled)
qed

lemma analyze_tas_threshold_floor:
  "analyze_tas_threshold n = max 1 \<lfloor>real n / 100 * 0.3\<rfloor>"
  by (simp only: analyze_tas_threshold_def Let_def clamp_max)

lemma analyze_tas_threshold_int:
  "analyze_tas_threshold n = max 1 (int (3 * n div 1000))"
proof -
  have "real n / 100 * 0.3 = real (3 * n) / real 1000" by simp
  then show ?thesis by (simp only: analyze_tas_threshold_floor floor_scaled)
qed

lemma scan_windows_skip:
  "1 \<le> threshold \<Longrightarrow>
   scan_windows threshold bin_size tc_idx i (replicate n 0 @ rest) False ws wins
     = scan_windows threshold bin_size tc_idx (i + n) rest False ws wins"
  by (induction n arbitrary: i) (simp_all add: has_traffic_def)

lemma scan_windows_ends_closed:
  "1 \<le> threshold \<Longrightarrow>
   fst (scan_windows threshold bin_size tc_idx i (bins @ [0]) in_window ws wins) = False"
  by (induction bins arbitrary: i in_window ws wins) (simp_all add: has_traffic_def)

lemma detect_windows_threshold_pos: "1 \<le> detect_windows_threshold tc"
  by (simp add: detect_windows_threshold_def Let_def)

lemma detect_windows_no_merge:
  "detect_windows tc cycle_ns tc_idx =
     (if histogram_size tc = 0 \<or> length (packets tc) < 10 then tc
      else tc\<lparr>windows := snd (scan_windows (detect_windows_threshold tc)
                 (cycle_ns div histogram_size tc) tc_idx 0
                 (take (histogram_size tc) (histogram tc) @ [0]) False 0 [])\<rparr>)"
  using scan_windows_ends_closed [OF detect_windows_threshold_pos, of tc
      "cycle_ns div histogram_size tc" tc_idx 0 "take (histogram_size tc) (histogram tc)" False 0 "[]"]
  by (auto simp: detect_windows_def Let_def split: prod.splits)

lemma ends_update:
  fixes b v :: int
  shows "(replicate 1998 0 @ [b])[1998 := v] = replicate 1998 0 @ [v]"
    and "(replicate 1998 0 @ [b]) ! 1998 = b"
proof -
  have n: "(1998::nat) = length (replicate 1998 (0::int))" by simp
  show "(replicate 1998 0 @ [b])[1998 := v] = replicate 1998 0 @ [v]"
    by (subst (2) n) (simp only: list_update_length)
  show "(replicate 1998 0 @ [b]) ! 1998 = b"
    by (subst (2) n) (simp only: nth_append_length)
qed

lemma zero_bins: "replicate 2000 (0::int) = 0 # replicate 1998 0 @ [0]"
proof -
  have "replicate (Suc (Suc 1998)) (0::int) = 0 # replicate 1998 0 @ [0]"
    by (simp only: replicate_Suc replicate_append_same)
  moreover have "Suc (Suc 1998) = 2000" by simp
  ultimately show ?thesis by (simp only:)
qed

lemma wrap_histogram:
  "build_histogram wrap_capture 10000000 =
     wrap_capture\<lparr>histogram := 5 # replicate 1998 0 @ [5], histogram_size := 2000\<rparr>"
proof -
  have "count_bins 1000000 10000000 5000 2000 (packets wrap_capture) (0 # replicate 1998 0 @ [0])
      = 5 # replicate 1998 0 @ [5]"
    by (simp add: count_bins_def phase_bin_def sub64_le wrap_capture_def empty_tc_def ends_update)
  then show ?thesis
    by (simp add: build_histogram_def HISTOGRAM_BINS_def zero_bins)
       (simp add: wrap_capture_def empty_tc_def)
qed

text \<open>
  C4 fails on the code. The scan reads one more bin of value 0 after the last bin, which
  closes any window that is still open, so \<^verbatim>\<open>in_window\<close> is false when the merge is
  tested and the merge never runs. For the packets of \<open>wrap_capture\<close> the first and the
  last bin of the histogram are above the threshold, and \<^verbatim>\<open>detect_windows\<close> reports two
  windows, one at each end of the cycle, where the claim has one window of 10 us that
  starts at 9995 us.
\<close>

theorem C4_wrap_not_merged:
  "windows (detect_windows (build_histogram wrap_capture 10000000) 10000000 0) =
     [\<lparr>start_offset_ns = 0, duration_ns = 5000, w_tc = 0\<rparr>,
      \<lparr>start_offset_ns = 9995000, duration_ns = 5000, w_tc = 0\<rparr>]"
proof -
  let ?tc = "wrap_capture\<lparr>histogram := 5 # replicate 1998 0 @ [5], histogram_size := 2000\<rparr>"
  have t: "detect_windows_threshold ?tc = 1"
    by (simp add: detect_windows_threshold_int wrap_capture_def empty_tc_def)
  have h: "take (histogram_size ?tc) (histogram ?tc) @ [0] = 5 # 0 # replicate 1997 0 @ [5, 0]"
  proof -
    have "(1998::nat) = Suc 1997" by simp
    then have "replicate 1998 (0::int) = 0 # replicate 1997 0"
      by (simp only: replicate_Suc)
    then show ?thesis by simp
  qed
  have s: "scan_windows 1 5000 0 0 (5 # 0 # replicate 1997 0 @ [5, 0]) False 0 []
      = (False, [\<lparr>start_offset_ns = 0, duration_ns = 5000, w_tc = 0\<rparr>,
                 \<lparr>start_offset_ns = 9995000, duration_ns = 5000, w_tc = 0\<rparr>])"
    by (simp add: has_traffic_def scan_windows_skip)
  have g: "\<not> (histogram_size ?tc = 0 \<or> length (packets ?tc) < 10)"
    and b: "10000000 div histogram_size ?tc = 5000"
    by (simp_all add: wrap_capture_def empty_tc_def)
  show ?thesis
    by (simp only: wrap_histogram detect_windows_no_merge g if_False t b h s snd_conv)
       (simp add: wrap_capture_def empty_tc_def)
qed

subsection \<open>The presence cutoff\<close>

lemma bin_reported_Nil: "\<not> bin_reported bs [] j"
  by (simp add: bin_reported_def)

lemma bin_reported_snoc:
  "bin_reported bs (wins @ [w]) j \<longleftrightarrow>
     bin_reported bs wins j \<or>
     (start_offset_ns w \<le> j * bs \<and> (j + 1) * bs \<le> start_offset_ns w + duration_ns w)"
  by (auto simp: bin_reported_def)

lemma scan_windows_mono:
  "length wins \<le> length (snd (scan_windows thr bs idx i bins inw ws wins))"
proof (induction bins arbitrary: i inw ws wins)
  case Nil
  show ?case by simp
next
  case (Cons v rest)
  have a: "length wins \<le> length (snd (scan_windows thr bs idx (Suc i) rest b s wins))" for b s
    by (rule Cons.IH)
  have b: "length wins \<le> length (snd (scan_windows thr bs idx (Suc i) rest b s (wins @ [w])))"
    for b s w
  proof -
    have "length wins \<le> length (wins @ [w])" by simp
    also have "\<dots> \<le> length (snd (scan_windows thr bs idx (Suc i) rest b s (wins @ [w])))"
      by (rule Cons.IH)
    finally show ?thesis .
  qed
  show ?case by (auto simp: a b)
qed

lemma window_bins:
  fixes bs ws i j :: nat
  assumes "0 < bs" "ws \<le> i"
  shows "ws * bs \<le> j * bs \<and> (j + 1) * bs \<le> ws * bs + (i - ws) * bs \<longleftrightarrow> ws \<le> j \<and> j < i"
proof -
  from assms(2) have "ws * bs + (i - ws) * bs = i * bs"
    by (simp add: add_mult_distrib [symmetric])
  moreover from assms(1) have "ws * bs \<le> j * bs \<longleftrightarrow> ws \<le> j"
    and "(j + 1) * bs \<le> i * bs \<longleftrightarrow> j + 1 \<le> i"
    by (simp_all only: mult_le_cancel2) simp_all
  ultimately show ?thesis by (simp only: Suc_le_eq Suc_eq_plus1 [symmetric])
qed

lemma scan_windows_reported:
  assumes "0 < bs" and "(i + length bins) * bs < 2 ^ 64" and "inw \<longrightarrow> ws \<le> i"
    and "scan_windows thr bs idx i bins inw ws wins = (False, wins')" and "length wins' < 16"
  shows "bin_reported bs wins' j \<longleftrightarrow>
           bin_reported bs wins j \<or> (inw \<and> ws \<le> j \<and> j < i) \<or>
           (i \<le> j \<and> j < i + length bins \<and> bins ! (j - i) \<ge> thr)"
  using assms(2-5)
proof (induction bins arbitrary: i inw ws wins)
  case Nil
  then show ?case by auto
next
  case (Cons v rest)
  from Cons.prems(1) have bound: "(i + 1 + length rest) * bs < 2 ^ 64" by simp
  have nth: "(i \<le> j \<and> j < i + length (v # rest) \<and> (v # rest) ! (j - i) \<ge> thr) \<longleftrightarrow>
      (j = i \<and> v \<ge> thr) \<or> (i + 1 \<le> j \<and> j < i + 1 + length rest \<and> rest ! (j - (i + 1)) \<ge> thr)"
  proof (cases "j = i")
    case True
    then show ?thesis by simp
  next
    case False
    show ?thesis
    proof (cases "i < j")
      case True
      then have "j - i = Suc (j - (i + 1))" by simp
      then have "(v # rest) ! (j - i) = rest ! (j - (i + 1))" by (simp only: nth_Cons_Suc)
      with True show ?thesis by auto
    next
      case False
      with \<open>j \<noteq> i\<close> show ?thesis by simp
    qed
  qed
  consider (opens) "v \<ge> thr" "\<not> inw" | (closes) "\<not> v \<ge> thr" "inw"
    | (stays) "v \<ge> thr" "inw" | (out) "\<not> v \<ge> thr" "\<not> inw" by blast
  then show ?case
  proof cases
    case opens
    with Cons.prems(3)
    have eq: "scan_windows thr bs idx (i + 1) rest True i wins = (False, wins')"
      by (simp add: has_traffic_def)
    have "bin_reported bs wins' j \<longleftrightarrow>
           bin_reported bs wins j \<or> (True \<and> i \<le> j \<and> j < i + 1) \<or>
           (i + 1 \<le> j \<and> j < i + 1 + length rest \<and> rest ! (j - (i + 1)) \<ge> thr)"
      by (rule Cons.IH [OF bound _ eq Cons.prems(4)]) simp
    with opens show ?thesis unfolding nth by auto
  next
    case closes
    let ?w = "\<lparr>start_offset_ns = (ws * bs) mod 2 ^ 64,
                duration_ns = ((i - ws) * bs) mod 2 ^ 64, w_tc = idx\<rparr>"
    let ?wins = "if length wins < 16 then wins @ [?w] else wins"
    from closes Cons.prems(3)
    have eq: "scan_windows thr bs idx (i + 1) rest False ws ?wins = (False, wins')"
      by (simp add: has_traffic_def)
    have "length ?wins \<le> length (snd (scan_windows thr bs idx (i + 1) rest False ws ?wins))"
      by (rule scan_windows_mono)
    with eq Cons.prems(4) have "length ?wins < 16" by simp
    then have lt: "length wins < 16" by (simp split: if_splits)
    from closes Cons.prems(2) have le: "ws \<le> i" by simp
    have a: "ws * bs \<le> i * bs" by (rule mult_le_mono1 [OF le])
    have b: "(i - ws) * bs \<le> i * bs" by (rule mult_le_mono1) simp
    from Cons.prems(1) have c: "i * bs < 2 ^ 64" by (simp add: add_mult_distrib)
    from a c have "ws * bs < 2 ^ 64" by (rule le_less_trans)
    then have m1: "(ws * bs) mod 2 ^ 64 = ws * bs" by (rule mod_less)
    from b c have "(i - ws) * bs < 2 ^ 64" by (rule le_less_trans)
    then have m2: "((i - ws) * bs) mod 2 ^ 64 = (i - ws) * bs" by (rule mod_less)
    note m = m1 m2
    have ih: "bin_reported bs wins' j \<longleftrightarrow>
           bin_reported bs ?wins j \<or> (False \<and> ws \<le> j \<and> j < i + 1) \<or>
           (i + 1 \<le> j \<and> j < i + 1 + length rest \<and> rest ! (j - (i + 1)) \<ge> thr)"
      by (rule Cons.IH [OF bound _ eq Cons.prems(4)]) simp
    have "bin_reported bs (wins @ [?w]) j \<longleftrightarrow> bin_reported bs wins j \<or> (ws \<le> j \<and> j < i)"
      by (simp only: m bin_reported_snoc gate_window.select_convs window_bins [OF assms(1) le])
    with lt have "bin_reported bs ?wins j \<longleftrightarrow> bin_reported bs wins j \<or> (ws \<le> j \<and> j < i)"
      by (simp only: if_True)
    with ih show ?thesis using closes unfolding nth by auto
  next
    case stays
    with Cons.prems(3)
    have eq: "scan_windows thr bs idx (i + 1) rest inw ws wins = (False, wins')"
      by (simp add: has_traffic_def)
    from stays Cons.prems(2) have le: "ws \<le> i" by simp
    have "bin_reported bs wins' j \<longleftrightarrow>
           bin_reported bs wins j \<or> (inw \<and> ws \<le> j \<and> j < i + 1) \<or>
           (i + 1 \<le> j \<and> j < i + 1 + length rest \<and> rest ! (j - (i + 1)) \<ge> thr)"
      by (rule Cons.IH [OF bound _ eq Cons.prems(4)]) (use le in simp)
    with stays le show ?thesis unfolding nth by auto
  next
    case out
    with Cons.prems(3)
    have eq: "scan_windows thr bs idx (i + 1) rest inw ws wins = (False, wins')"
      by (simp add: has_traffic_def)
    have "bin_reported bs wins' j \<longleftrightarrow>
           bin_reported bs wins j \<or> (inw \<and> ws \<le> j \<and> j < i + 1) \<or>
           (i + 1 \<le> j \<and> j < i + 1 + length rest \<and> rest ! (j - (i + 1)) \<ge> thr)"
      by (rule Cons.IH [OF bound _ eq Cons.prems(4)]) (simp add: out)
    with out show ?thesis unfolding nth by auto
  qed
qed

lemma detect_windows_reported:
  assumes "histogram_size tc \<noteq> 0" and "10 \<le> length (packets tc)"
    and "histogram_size tc \<le> length (histogram tc)"
    and "histogram_size tc \<le> cycle_ns" and "cycle_ns < 2 ^ 63"
    and "length (windows (detect_windows tc cycle_ns tc_idx)) < 16"
    and "i < histogram_size tc"
  shows "bin_reported (cycle_ns div histogram_size tc) (windows (detect_windows tc cycle_ns tc_idx)) i
           \<longleftrightarrow> histogram tc ! i \<ge> detect_windows_threshold tc"
proof -
  let ?n = "histogram_size tc"
  let ?bs = "cycle_ns div ?n"
  let ?bins = "take ?n (histogram tc) @ [0]"
  let ?thr = "detect_windows_threshold tc"
  let ?r = "scan_windows ?thr ?bs tc_idx 0 ?bins False 0 []"
  from assms(1,2) have w: "windows (detect_windows tc cycle_ns tc_idx) = snd ?r"
    by (simp add: detect_windows_no_merge)
  have "fst ?r = False"
    by (rule scan_windows_ends_closed [OF detect_windows_threshold_pos])
  then have r: "?r = (False, snd ?r)" by (cases ?r) simp
  from assms(1,4) have bs: "0 < ?bs" by (simp add: div_greater_zero_iff)
  from assms(3) have len: "length ?bins = ?n + 1" by simp
  have "?n * ?bs \<le> cycle_ns" by simp
  moreover have "?bs \<le> cycle_ns" by simp
  moreover have "(?n + 1) * ?bs = ?n * ?bs + ?bs" by simp
  ultimately have "(?n + 1) * ?bs \<le> 2 * cycle_ns" by linarith
  also from assms(5) have "2 * cycle_ns < 2 ^ 64" by simp
  finally have bound: "(0 + length ?bins) * ?bs < 2 ^ 64" by (simp only: len add_0)
  from assms(6) have l: "length (snd ?r) < 16" by (simp only: w)
  have "bin_reported ?bs (snd ?r) i \<longleftrightarrow>
      bin_reported ?bs [] i \<or> (False \<and> 0 \<le> i \<and> i < 0) \<or>
      (0 \<le> i \<and> i < 0 + length ?bins \<and> ?bins ! (i - 0) \<ge> ?thr)"
    by (rule scan_windows_reported [OF bs bound _ r l]) simp
  moreover from assms(3,7) have "?bins ! i = histogram tc ! i"
    by (simp add: nth_append)
  ultimately show ?thesis using assms(3,7) by (simp add: w bin_reported_Nil)
qed

lemma detect_windows_threshold_integer_cutoff:
  assumes "histogram_size tc \<noteq> 0" and "3 * length (packets tc) < 10 * histogram_size tc"
  shows "detect_windows_threshold tc = integer_cutoff (length (packets tc)) (histogram_size tc)"
    and "detect_windows_threshold tc = 1"
proof -
  let ?c = "length (packets tc)" and ?n = "histogram_size tc"
  from assms(2) have "3 * ?c div (5 * ?n) < 2"
    by (simp add: less_mult_imp_div_less)
  then have a: "max 1 (int (3 * ?c div (5 * ?n))) = 1" by simp
  have "0.3 * (real ?c / real ?n) = real (3 * ?c) / real (10 * ?n)" by simp
  then have "integer_cutoff ?c ?n = max 1 (int (3 * ?c div (10 * ?n)))"
    by (simp only: integer_cutoff_def floor_scaled)
  moreover from assms(2) have "3 * ?c div (10 * ?n) = 0" by simp
  ultimately have b: "integer_cutoff ?c ?n = 1" by simp
  show "detect_windows_threshold tc = 1" by (simp only: detect_windows_threshold_int a)
  with b show "detect_windows_threshold tc = integer_cutoff ?c ?n" by simp
qed

lemma tas_bin_bound:
  assumes "100 \<le> cycle_ns"
  shows "tas_bin first cycle_ns (cycle_ns div 100) p < 200"
proof -
  let ?q = "cycle_ns div 100"
  from assms have q: "0 < ?q" by (simp add: div_greater_zero_iff)
  have "sub64 (ts_ns p) first mod cycle_ns < cycle_ns" using assms by simp
  also have "cycle_ns = ?q * 100 + cycle_ns mod 100" by simp
  also have "\<dots> < ?q * 100 + 100" by simp
  also from q have "\<dots> \<le> ?q * 200" by simp
  finally have "sub64 (ts_ns p) first mod cycle_ns < 200 * ?q" by (simp add: mult.commute)
  then show ?thesis by (simp add: tas_bin_def less_mult_imp_div_less)
qed

lemma tas_span_prefix:
  fixes thr :: int and h :: "int list"
  defines "step \<equiv> (\<lambda>i (start, endb).
             if h ! i \<ge> thr then (if start < 0 then int i else start, int i) else (start, endb))"
  assumes "fold step [0..<n] (- 1, - 1) = (s, e)"
  shows "(0 \<le> s \<longleftrightarrow> (\<exists>i<n. h ! i \<ge> thr)) \<and>
         (\<forall>i<n. h ! i \<ge> thr \<longrightarrow> s \<le> int i \<and> int i \<le> e) \<and>
         (0 \<le> s \<longrightarrow> h ! nat s \<ge> thr \<and> h ! nat e \<ge> thr \<and> 0 \<le> e \<and> e < int n) \<and>
         (s < 0 \<longrightarrow> s = - 1 \<and> e = - 1)"
  using assms(2)
proof (induction n arbitrary: s e)
  case 0
  then show ?case by simp
next
  case (Suc n)
  obtain s0 e0 where p: "fold step [0..<n] (- 1, - 1) = (s0, e0)"
    by (cases "fold step [0..<n] (- 1, - 1)") auto
  note ih = Suc.IH [OF p]
  from Suc.prems p have st: "step n (s0, e0) = (s, e)" by simp
  show ?case
  proof (cases "h ! n \<ge> thr")
    case True
    with st have se: "s = (if s0 < 0 then int n else s0)" "e = int n"
      by (simp_all add: step_def)
    show ?thesis
    proof (cases "s0 < 0")
      case True
      with ih have none: "\<forall>i<n. \<not> h ! i \<ge> thr" by auto
      from True se have "s = int n" by simp
      with se(2) \<open>h ! n \<ge> thr\<close> none show ?thesis
        by (auto simp: less_Suc_eq)
    next
      case False
      with se have "s = s0" by simp
      with se(2) \<open>h ! n \<ge> thr\<close> False ih show ?thesis
        by (auto simp: less_Suc_eq)
    qed
  next
    case False
    with st have "s = s0" "e = e0" by (simp_all add: step_def)
    with False ih show ?thesis by (auto simp: less_Suc_eq)
  qed
qed

lemma tas_span_bins:
  assumes "tas_span thr h n = (s, e)"
  shows "(0 \<le> s \<longleftrightarrow> (\<exists>i<n. h ! i \<ge> thr)) \<and>
         (\<forall>i<n. h ! i \<ge> thr \<longrightarrow> s \<le> int i \<and> int i \<le> e) \<and>
         (0 \<le> s \<longrightarrow> h ! nat s \<ge> thr \<and> h ! nat e \<ge> thr \<and> 0 \<le> e \<and> e < int n)"
  using tas_span_prefix [OF assms [unfolded tas_span_def]] by blast

lemma integer_cutoff_int: "integer_cutoff c n = max 1 (int (3 * c div (10 * n)))"
proof -
  have "0.3 * (real c / real n) = real (3 * c) / real (10 * n)" by simp
  then show ?thesis by (simp only: integer_cutoff_def floor_scaled)
qed

lemma analyze_tas_threshold_cutoff: "analyze_tas_threshold c = integer_cutoff c 100"
  by (simp add: analyze_tas_threshold_int integer_cutoff_int)

lemma tas_count_bins_replicate:
  assumes "tas_bin first cycle_ns bs p = k" and "k < n" and "k < length h"
  shows "tas_count_bins first cycle_ns bs n (replicate m p) h = h[k := h ! k + int m]"
  using assms(3)
proof (induction m arbitrary: h)
  case 0
  then show ?case by (simp add: tas_count_bins_def)
next
  case (Suc m)
  let ?h = "h[k := h ! k + 1]"
  from Suc.prems have l: "k < length ?h" by simp
  from assms(1,2) have "tas_count_bins first cycle_ns bs n (replicate (Suc m) p) h
      = tas_count_bins first cycle_ns bs n (replicate m p) ?h"
    by (simp add: tas_count_bins_def)
  also have "\<dots> = ?h[k := ?h ! k + int m]" by (rule Suc.IH [OF l])
  also from Suc.prems have "\<dots> = h[k := h ! k + int (Suc m)]" by (simp add: add.assoc)
  finally show ?case .
qed

lemma tas_count_bins_append:
  "tas_count_bins first cycle_ns bs n (xs @ ys) h
     = tas_count_bins first cycle_ns bs n ys (tas_count_bins first cycle_ns bs n xs h)"
  by (simp add: tas_count_bins_def)

lemma tas_capture_bins:
  "tas_count_bins 1000000 10000000 100000 100 (packets tas_capture) (replicate 1000 0)
     = (replicate 1000 0)[0 := 499, 50 := 1]"
proof -
  have a: "tas_bin 1000000 10000000 100000 \<lparr>ts_ns = 1000000, len = 64\<rparr> = 0"
    and b: "tas_bin 1000000 10000000 100000 \<lparr>ts_ns = 6000000, len = 64\<rparr> = 50"
    by (simp_all add: tas_bin_def sub64_le)
  have "tas_count_bins 1000000 10000000 100000 100 (replicate 499 \<lparr>ts_ns = 1000000, len = 64\<rparr>)
          (replicate 1000 0) = (replicate 1000 0)[0 := replicate 1000 0 ! 0 + int 499]"
    by (rule tas_count_bins_replicate [OF a]) simp_all
  then have c: "tas_count_bins 1000000 10000000 100000 100
      (replicate 499 \<lparr>ts_ns = 1000000, len = 64\<rparr>) (replicate 1000 0) = (replicate 1000 0)[0 := 499]"
    by simp
  show ?thesis
    by (simp only: tas_capture_def tc_store.select_convs tas_count_bins_append c)
       (simp add: tas_count_bins_def b)
qed

lemma tas_capture_span:
  "tas_span 1 ((replicate 1000 0)[0 := 499, 50 := 1]) 100 = (0, 50)"
proof -
  let ?h = "(replicate 1000 (0::int))[0 := 499, 50 := 1]"
  obtain s e where se: "tas_span 1 ?h 100 = (s, e)" by (cases "tas_span 1 ?h 100") auto
  have nth: "?h ! i = (if i = 50 then 1 else if i = 0 then 499 else 0)" if "i < 100" for i
    using that by simp
  have zero: "1 \<le> ?h ! 0" and fifty: "1 \<le> ?h ! 50" by simp_all
  from tas_span_bins [OF se]
  have b1: "0 \<le> s \<longleftrightarrow> (\<exists>i<100. 1 \<le> ?h ! i)"
    and b2: "\<And>i. i < 100 \<Longrightarrow> 1 \<le> ?h ! i \<Longrightarrow> s \<le> int i \<and> int i \<le> e"
    and b3: "0 \<le> s \<Longrightarrow> 1 \<le> ?h ! nat e \<and> 0 \<le> e \<and> e < int 100"
    by blast+
  have "\<exists>i<100. 1 \<le> ?h ! i" by (intro exI [of _ 0]) simp
  with b1 have s0: "0 \<le> s" by simp
  from b2 [of 0] zero have "s \<le> 0" by simp
  with s0 have s: "s = 0" by simp
  from b2 [of 50] fifty have e50: "50 \<le> e" by simp
  from b3 [OF s0] have e: "1 \<le> ?h ! nat e" "0 \<le> e" "e < 100" by simp_all
  then have "nat e < 100" by simp
  from e(1) nth [OF this] have "nat e = 50 \<or> nat e = 0" by (simp split: if_splits)
  with e50 e(2) have "e = 50" by auto
  with s se show ?thesis by simp
qed

lemma tas_capture_result:
  "analyze_tas tas_capture 10000000 0 =
     Inr (tas_capture\<lparr>tas_histogram := (replicate 1000 0)[0 := 499, 50 := 1],
            tas_histogram_size := 100, window_start_us := 0, window_duration_us := 5100\<rparr>)"
proof -
  have l: "length (packets tas_capture) = 500" and f: "first_ts tas_capture = 1000000"
    by (simp_all add: tas_capture_def)
  have t: "analyze_tas_threshold 500 = 1" by (simp add: analyze_tas_threshold_int)
  show ?thesis
    by (simp add: analyze_tas_def l f t tas_capture_bins tas_capture_span)
qed

lemma wrap_windows:
  "windows (detect_windows (build_histogram wrap_capture 10000000) 10000000 0) =
     [\<lparr>start_offset_ns = 0, duration_ns = 5000, w_tc = 0\<rparr>,
      \<lparr>start_offset_ns = 9995000, duration_ns = 5000, w_tc = 0\<rparr>]"
proof -
  let ?tc = "wrap_capture\<lparr>histogram := 5 # replicate 1998 0 @ [5], histogram_size := 2000\<rparr>"
  have t: "detect_windows_threshold ?tc = 1"
    by (simp add: detect_windows_threshold_int wrap_capture_def empty_tc_def)
  have h: "take (histogram_size ?tc) (histogram ?tc) @ [0] = 5 # 0 # replicate 1997 0 @ [5, 0]"
  proof -
    have "(1998::nat) = Suc 1997" by simp
    then have "replicate 1998 (0::int) = 0 # replicate 1997 0"
      by (simp only: replicate_Suc)
    then show ?thesis by simp
  qed
  have s: "scan_windows 1 5000 0 0 (5 # 0 # replicate 1997 0 @ [5, 0]) False 0 []
      = (False, [\<lparr>start_offset_ns = 0, duration_ns = 5000, w_tc = 0\<rparr>,
                 \<lparr>start_offset_ns = 9995000, duration_ns = 5000, w_tc = 0\<rparr>])"
    by (simp add: has_traffic_def scan_windows_skip)
  have g: "\<not> (histogram_size ?tc = 0 \<or> length (packets ?tc) < 10)"
    and b: "10000000 div histogram_size ?tc = 5000"
    by (simp_all add: wrap_capture_def empty_tc_def)
  show ?thesis
    by (simp only: wrap_histogram detect_windows_no_merge g if_False t b h s snd_conv)
       (simp add: wrap_capture_def empty_tc_def)
qed

lemma detect_windows_threshold_doubled:
  "detect_windows_threshold twelve_k = 3"
  "integer_cutoff (length (packets twelve_k)) (histogram_size twelve_k) = 1"
  by (simp_all add: detect_windows_threshold_int integer_cutoff_int twelve_k_def empty_tc_def)

lemma analyze_tas_run:
  assumes "10 \<le> length (packets t)" and "100 \<le> cycle"
    and "tas_span (integer_cutoff (length (packets t)) 100)
           (tas_count_bins (first_ts t) cycle (cycle div 100) 100 (packets t) (replicate 1000 0))
           100 = (s, e)"
  shows "analyze_tas t cycle idx =
           Inr (if 0 \<le> s
                then t\<lparr>tas_histogram := tas_count_bins (first_ts t) cycle (cycle div 100) 100
                                          (packets t) (replicate 1000 0),
                       tas_histogram_size := 100,
                       window_start_us := real_of_int s * (real (cycle div 100) / 1000),
                       window_duration_us := real_of_int (e - s + 1) * (real (cycle div 100) / 1000)\<rparr>
                else t\<lparr>tas_histogram := tas_count_bins (first_ts t) cycle (cycle div 100) 100
                                          (packets t) (replicate 1000 0),
                       tas_histogram_size := 100\<rparr>)"
proof -
  from assms(2) have "cycle div 100 \<noteq> 0" "cycle \<noteq> 0" by (simp_all add: div_greater_zero_iff)
  with assms(1,3) show ?thesis
    by (simp add: analyze_tas_def Let_def analyze_tas_threshold_cutoff)
qed

lemma whole_microseconds:
  fixes bin_size :: nat
  assumes "bin_size mod 1000 = 0"
  shows "real bin_size / 1000 = real (bin_size div 1000)"
proof -
  from assms have "1000 dvd bin_size" by (simp add: dvd_eq_mod_eq_0)
  then have "real (bin_size div 1000) = real bin_size / real 1000" by (rule real_of_nat_div)
  then show ?thesis by simp
qed

text \<open>
  C3 (amended). The cutoff is the integer part of 0.3 times the mean bin occupancy, and at
  least 1. \<^verbatim>\<open>detect_windows\<close> of \<^verbatim>\<open>tas-estimator.c\<close> uses this cutoff, which then is 1, for
  a class with at least 10 packets and a mean occupancy below 10 / 3 packets per bin; with a
  cycle of at least 1 ns per bin and fewer than 16 windows reported, the bins inside a
  reported window are exactly the bins at or above the cutoff. \<^verbatim>\<open>analyze_tas\<close> of
  \<^verbatim>\<open>tsn-verify.c\<close> uses this cutoff for every class with at least 10 packets and a cycle of
  at least 100 ns, and a bin counts as open exactly when its value is at or above it:
  \<^verbatim>\<open>start\<close> and \<^verbatim>\<open>end\<close> are the first and the last such bin, and when there is one the window
  reported runs from the first to the last. The two window fields are given for a bin size
  of a whole number of microseconds and a cycle below \<open>2 ^ 53\<close> ns, where the products of
  the two assignments are integers that the doubles hold exactly.
\<close>

theorem C3_threshold:
  "(histogram_size tc \<noteq> 0 \<and> 10 \<le> length (packets tc) \<and>
    3 * length (packets tc) < 10 * histogram_size tc \<longrightarrow>
      detect_windows_threshold tc = integer_cutoff (length (packets tc)) (histogram_size tc) \<and>
      detect_windows_threshold tc = 1 \<and>
      (histogram_size tc \<le> length (histogram tc) \<and> histogram_size tc \<le> cycle_ns \<and>
       cycle_ns < 2 ^ 63 \<and> length (windows (detect_windows tc cycle_ns tc_idx)) < 16 \<longrightarrow>
         (\<forall>i<histogram_size tc.
            bin_reported (cycle_ns div histogram_size tc)
                (windows (detect_windows tc cycle_ns tc_idx)) i
              \<longleftrightarrow> histogram tc ! i \<ge> integer_cutoff (length (packets tc)) (histogram_size tc)))) \<and>
   (10 \<le> length (packets t) \<and> 100 \<le> cycle \<longrightarrow>
      analyze_tas_threshold (length (packets t)) = integer_cutoff (length (packets t)) 100 \<and>
      analyze_tas_threshold (length (packets t)) = max 1 (int (3 * length (packets t) div 1000)) \<and>
      (\<exists>t' start endb.
         analyze_tas t cycle idx = Inr t' \<and>
         tas_span (integer_cutoff (length (packets t)) 100) (tas_histogram t') 100 = (start, endb) \<and>
         (0 \<le> start \<longleftrightarrow>
            (\<exists>i<100. tas_histogram t' ! i \<ge> integer_cutoff (length (packets t)) 100)) \<and>
         (\<forall>i<100. tas_histogram t' ! i \<ge> integer_cutoff (length (packets t)) 100 \<longrightarrow>
            start \<le> int i \<and> int i \<le> endb) \<and>
         (0 \<le> start \<longrightarrow>
            tas_histogram t' ! nat start \<ge> integer_cutoff (length (packets t)) 100 \<and>
            tas_histogram t' ! nat endb \<ge> integer_cutoff (length (packets t)) 100 \<and>
            0 \<le> endb \<and> endb < 100) \<and>
         (0 \<le> start \<and> (cycle div 100) mod 1000 = 0 \<and> cycle < 2 ^ 53 \<longrightarrow>
            window_start_us t' = real_of_int start * real (cycle div 100 div 1000) \<and>
            window_duration_us t'
              = real_of_int (endb - start + 1) * real (cycle div 100 div 1000)) \<and>
         (start < 0 \<longrightarrow>
            window_start_us t' = window_start_us t \<and>
            window_duration_us t' = window_duration_us t)))"
proof (intro conjI impI)
  assume a: "histogram_size tc \<noteq> 0 \<and> 10 \<le> length (packets tc) \<and>
    3 * length (packets tc) < 10 * histogram_size tc"
  then have n: "histogram_size tc \<noteq> 0" and ten: "10 \<le> length (packets tc)"
    and low: "3 * length (packets tc) < 10 * histogram_size tc" by simp_all
  show c: "detect_windows_threshold tc = integer_cutoff (length (packets tc)) (histogram_size tc)"
    by (rule detect_windows_threshold_integer_cutoff(1) [OF n low])
  show "detect_windows_threshold tc = 1"
    by (rule detect_windows_threshold_integer_cutoff(2) [OF n low])
  assume b: "histogram_size tc \<le> length (histogram tc) \<and> histogram_size tc \<le> cycle_ns \<and>
       cycle_ns < 2 ^ 63 \<and> length (windows (detect_windows tc cycle_ns tc_idx)) < 16"
  show "\<forall>i<histogram_size tc.
            bin_reported (cycle_ns div histogram_size tc)
                (windows (detect_windows tc cycle_ns tc_idx)) i
              \<longleftrightarrow> histogram tc ! i \<ge> integer_cutoff (length (packets tc)) (histogram_size tc)"
  proof (intro allI impI)
    fix i assume i: "i < histogram_size tc"
    from b have "histogram_size tc \<le> length (histogram tc)" "histogram_size tc \<le> cycle_ns"
      "cycle_ns < 2 ^ 63" "length (windows (detect_windows tc cycle_ns tc_idx)) < 16"
      by simp_all
    from detect_windows_reported [OF n ten this i]
    show "bin_reported (cycle_ns div histogram_size tc)
            (windows (detect_windows tc cycle_ns tc_idx)) i
          \<longleftrightarrow> histogram tc ! i \<ge> integer_cutoff (length (packets tc)) (histogram_size tc)"
      by (simp only: c)
  qed
next
  assume "10 \<le> length (packets t) \<and> 100 \<le> cycle"
  show "analyze_tas_threshold (length (packets t)) = integer_cutoff (length (packets t)) 100"
    by (rule analyze_tas_threshold_cutoff)
next
  assume "10 \<le> length (packets t) \<and> 100 \<le> cycle"
  show "analyze_tas_threshold (length (packets t)) = max 1 (int (3 * length (packets t) div 1000))"
    by (rule analyze_tas_threshold_int)
next
  assume "10 \<le> length (packets t) \<and> 100 \<le> cycle"
  then have p: "10 \<le> length (packets t)" "100 \<le> cycle" by simp_all
  let ?c = "integer_cutoff (length (packets t)) 100"
  let ?h = "tas_count_bins (first_ts t) cycle (cycle div 100) 100 (packets t) (replicate 1000 0)"
  obtain s e where se: "tas_span ?c ?h 100 = (s, e)" by (cases "tas_span ?c ?h 100") auto
  let ?t = "if 0 \<le> s
            then t\<lparr>tas_histogram := ?h, tas_histogram_size := 100,
                   window_start_us := real_of_int s * (real (cycle div 100) / 1000),
                   window_duration_us := real_of_int (e - s + 1) * (real (cycle div 100) / 1000)\<rparr>
            else t\<lparr>tas_histogram := ?h, tas_histogram_size := 100\<rparr>"
  have r: "analyze_tas t cycle idx = Inr ?t" by (rule analyze_tas_run [OF p se])
  have h: "tas_histogram ?t = ?h" by simp
  from tas_span_bins [OF se] have b:
    "(0 \<le> s \<longleftrightarrow> (\<exists>i<100. ?h ! i \<ge> ?c))"
    "(\<forall>i<100. ?h ! i \<ge> ?c \<longrightarrow> s \<le> int i \<and> int i \<le> e)"
    "(0 \<le> s \<longrightarrow> ?h ! nat s \<ge> ?c \<and> ?h ! nat e \<ge> ?c \<and> 0 \<le> e \<and> e < 100)"
    by simp_all
  have w: "window_start_us ?t = real_of_int s * real (cycle div 100 div 1000) \<and>
      window_duration_us ?t = real_of_int (e - s + 1) * real (cycle div 100 div 1000)"
    if "0 \<le> s \<and> (cycle div 100) mod 1000 = 0 \<and> cycle < 2 ^ 53"
    using that by (simp add: whole_microseconds)
  have k: "window_start_us ?t = window_start_us t \<and> window_duration_us ?t = window_duration_us t"
    if "s < 0" using that by simp
  show "\<exists>t' start endb.
         analyze_tas t cycle idx = Inr t' \<and>
         tas_span ?c (tas_histogram t') 100 = (start, endb) \<and>
         (0 \<le> start \<longleftrightarrow> (\<exists>i<100. tas_histogram t' ! i \<ge> ?c)) \<and>
         (\<forall>i<100. tas_histogram t' ! i \<ge> ?c \<longrightarrow> start \<le> int i \<and> int i \<le> endb) \<and>
         (0 \<le> start \<longrightarrow>
            tas_histogram t' ! nat start \<ge> ?c \<and> tas_histogram t' ! nat endb \<ge> ?c \<and>
            0 \<le> endb \<and> endb < 100) \<and>
         (0 \<le> start \<and> (cycle div 100) mod 1000 = 0 \<and> cycle < 2 ^ 53 \<longrightarrow>
            window_start_us t' = real_of_int start * real (cycle div 100 div 1000) \<and>
            window_duration_us t'
              = real_of_int (endb - start + 1) * real (cycle div 100 div 1000)) \<and>
         (start < 0 \<longrightarrow>
            window_start_us t' = window_start_us t \<and>
            window_duration_us t' = window_duration_us t)"
  proof (rule exI [of _ ?t], rule exI [of _ s], rule exI [of _ e], intro conjI)
    show "analyze_tas t cycle idx = Inr ?t" by (rule r)
    show "tas_span ?c (tas_histogram ?t) 100 = (s, e)" unfolding h by (rule se)
    show "0 \<le> s \<longleftrightarrow> (\<exists>i<100. tas_histogram ?t ! i \<ge> ?c)" unfolding h by (rule b(1))
    show "\<forall>i<100. tas_histogram ?t ! i \<ge> ?c \<longrightarrow> s \<le> int i \<and> int i \<le> e"
      unfolding h by (rule b(2))
    show "0 \<le> s \<longrightarrow> tas_histogram ?t ! nat s \<ge> ?c \<and> tas_histogram ?t ! nat e \<ge> ?c \<and>
        0 \<le> e \<and> e < 100"
      unfolding h by (rule b(3))
    show "0 \<le> s \<and> (cycle div 100) mod 1000 = 0 \<and> cycle < 2 ^ 53 \<longrightarrow>
        window_start_us ?t = real_of_int s * real (cycle div 100 div 1000) \<and>
        window_duration_us ?t = real_of_int (e - s + 1) * real (cycle div 100 div 1000)"
      using w by blast
    show "s < 0 \<longrightarrow>
        window_start_us ?t = window_start_us t \<and> window_duration_us ?t = window_duration_us t"
      using k by blast
  qed
qed

text \<open>
  The theorem at the histogram of \<open>wrap_capture\<close>, where bin 0 and bin 1999 are reported
  and bin 1 is not, and at \<open>tas_capture\<close>, where the window runs from bin 0 to bin 50.
\<close>

theorem C3_threshold_witness:
  "detect_windows_threshold (build_histogram wrap_capture 10000000) = 1 \<and>
   bin_reported 5000 (windows (detect_windows (build_histogram wrap_capture 10000000) 10000000 0)) 0 \<and>
   \<not> bin_reported 5000 (windows (detect_windows (build_histogram wrap_capture 10000000) 10000000 0)) 1 \<and>
   bin_reported 5000 (windows (detect_windows (build_histogram wrap_capture 10000000) 10000000 0)) 1999 \<and>
   analyze_tas_threshold (length (packets tas_capture)) = 1 \<and>
   tas_span 1 ((replicate 1000 0)[0 := 499, 50 := 1]) 100 = (0, 50) \<and>
   window_start_us (projr (analyze_tas tas_capture 10000000 0)) = 0 \<and>
   window_duration_us (projr (analyze_tas tas_capture 10000000 0)) = 5100"
proof -
  let ?W = "build_histogram wrap_capture 10000000"
  let ?H = "(replicate 1000 (0::int))[0 := 499, 50 := 1]"
  have W: "histogram_size ?W = 2000" "length (packets ?W) = 10"
    "histogram ?W = 5 # replicate 1998 0 @ [5]"
    by (simp_all add: wrap_histogram) (simp_all add: wrap_capture_def empty_tc_def)
  have c1: "integer_cutoff 10 2000 = 1" and c2: "integer_cutoff 500 100 = 1"
    by (simp_all add: integer_cutoff_int)
  have l: "length (packets tas_capture) = 500" by (simp add: tas_capture_def)
  note inst = C3_threshold [where tc = "build_histogram wrap_capture 10000000" and cycle_ns = 10000000 and tc_idx = 0
      and t = tas_capture and cycle = 10000000 and idx = 0]
  have g1: "histogram_size ?W \<noteq> 0 \<and> 10 \<le> length (packets ?W) \<and>
      3 * length (packets ?W) < 10 * histogram_size ?W"
    by (simp only: W) simp
  have g2: "histogram_size ?W \<le> length (histogram ?W) \<and> histogram_size ?W \<le> 10000000 \<and>
      (10000000::nat) < 2 ^ 63 \<and> length (windows (detect_windows ?W 10000000 0)) < 16"
    by (simp only: W wrap_windows) simp
  have g3: "10 \<le> length (packets tas_capture) \<and> (100::nat) \<le> 10000000"
    by (simp add: l)
  from inst g1 have "detect_windows_threshold ?W
      = integer_cutoff (length (packets ?W)) (histogram_size ?W)"
    by blast
  then have a: "detect_windows_threshold ?W = 1" by (simp only: W c1)
  from inst g1 g2 have "\<forall>i<histogram_size ?W.
      bin_reported (10000000 div histogram_size ?W) (windows (detect_windows ?W 10000000 0)) i
        \<longleftrightarrow> histogram ?W ! i \<ge> integer_cutoff (length (packets ?W)) (histogram_size ?W)"
    by blast
  then have b: "\<forall>i<2000. bin_reported 5000 (windows (detect_windows ?W 10000000 0)) i
      \<longleftrightarrow> histogram ?W ! i \<ge> 1"
    by (simp only: W(1,2) c1) simp
  have n0: "histogram ?W ! 0 = 5" and n1: "histogram ?W ! 1 = 0" and n2: "histogram ?W ! 1999 = 5"
  proof -
    show "histogram ?W ! 0 = 5" by (simp only: W nth_Cons_0)
    have "(1998::nat) = Suc 1997" by simp
    then have "replicate 1998 (0::int) = 0 # replicate 1997 0" by (simp only: replicate_Suc)
    then show "histogram ?W ! 1 = 0" by (simp add: W)
    have "(5 # replicate 1998 0 @ [5::int]) ! Suc 1998 = (replicate 1998 0 @ [5]) ! 1998"
      by (simp only: nth_Cons_Suc)
    then show "histogram ?W ! 1999 = 5" by (simp add: W ends_update(2))
  qed
  from b n0 have r0: "bin_reported 5000 (windows (detect_windows ?W 10000000 0)) 0" by simp
  from b n1 have r1: "\<not> bin_reported 5000 (windows (detect_windows ?W 10000000 0)) 1" by simp
  from b n2 have r2: "bin_reported 5000 (windows (detect_windows ?W 10000000 0)) 1999" by simp
  from inst g3 have t: "analyze_tas_threshold (length (packets tas_capture))
      = integer_cutoff (length (packets tas_capture)) 100" by blast
  from inst g3 obtain t' start endb where
    r: "analyze_tas tas_capture 10000000 0 = Inr t'"
    and sp: "tas_span (integer_cutoff (length (packets tas_capture)) 100) (tas_histogram t') 100
        = (start, endb)"
    and f: "0 \<le> start \<and> ((10000000::nat) div 100) mod 1000 = 0 \<and> (10000000::nat) < 2 ^ 53 \<longrightarrow>
        window_start_us t' = real_of_int start * real ((10000000::nat) div 100 div 1000) \<and>
        window_duration_us t' = real_of_int (endb - start + 1) * real ((10000000::nat) div 100 div 1000)"
    by blast
  from r have t': "t' = tas_capture\<lparr>tas_histogram := ?H, tas_histogram_size := 100,
      window_start_us := 0, window_duration_us := 5100\<rparr>"
    by (simp add: tas_capture_result)
  then have "tas_histogram t' = ?H" by simp
  with sp have "tas_span 1 ?H 100 = (start, endb)" by (simp only: l c2)
  with tas_capture_span have se: "start = 0" "endb = 50" by simp_all
  from f se have "window_start_us t' = 0" "window_duration_us t' = 5100" by simp_all
  with r have "window_start_us (projr (analyze_tas tas_capture 10000000 0)) = 0"
    and "window_duration_us (projr (analyze_tas tas_capture 10000000 0)) = 5100"
    by simp_all
  with a r0 r1 r2 t l c2 tas_capture_span show ?thesis by simp
qed

text \<open>
  C3 as stated fails on \<^verbatim>\<open>analyze_tas\<close>. \<open>tas_capture\<close> holds 500 packets in a cycle of
  10 ms, 499 of them in bin 0 and one in bin 50: the mean occupancy of the 100 bins is 5,
  0.3 times the mean is 1.5, and the cutoff used is 1. Bin 50, which holds one packet, is
  taken as open: the window reported runs from bin 0 to bin 50, 5100 us, where the cutoff
  of the claim leaves bin 0 alone, 100 us.
\<close>

theorem C3_cutoff_counterexample:
  "real_of_int (analyze_tas_threshold (length (packets tas_capture)))
     \<noteq> spec_cutoff (length (packets tas_capture)) 100 \<and>
   analyze_tas tas_capture 10000000 0 =
     Inr (tas_capture\<lparr>tas_histogram := (replicate 1000 0)[0 := 499, 50 := 1],
            tas_histogram_size := 100, window_start_us := 0, window_duration_us := 5100\<rparr>) \<and>
   real_of_int ((replicate 1000 0)[0 := 499, 50 := 1] ! 50)
     < spec_cutoff (length (packets tas_capture)) 100"
proof -
  have l: "length (packets tas_capture) = 500" by (simp add: tas_capture_def)
  have "analyze_tas_threshold 500 = 1" by (simp add: analyze_tas_threshold_int)
  moreover have "spec_cutoff 500 100 = 3 / 2" by (simp add: spec_cutoff_def)
  ultimately show ?thesis by (simp add: l tas_capture_result)
qed

subsection \<open>The burst segmenter of \<^verbatim>\<open>tsn-verify.c\<close>\<close>

lemma tsn_burst_loop_gaps_exceed:
  "gaps_exceed prev ps \<Longrightarrow> length fin + 1 \<le> TSN_MAX_BURSTS \<Longrightarrow>
   sum_list (map b_packets (tsn_burst_loop final_ts prev fin b ps))
     = sum_list (map b_packets fin) + b_packets b
       + min (length ps) (TSN_MAX_BURSTS - (length fin + 1))"
proof (induction ps arbitrary: prev fin b)
  case Nil
  then show ?case by simp
next
  case (Cons p ps)
  show ?case
  proof (cases "length fin + 1 < TSN_MAX_BURSTS")
    case False
    with Cons.prems show ?thesis by simp
  next
    case True
    let ?nb = "\<lparr>start_ns = ts_ns p, end_ns = 0, bytes = len p, b_packets = 1\<rparr>"
    let ?fin = "fin @ [b\<lparr>end_ns := prev\<rparr>]"
    from True Cons.prems have eq: "tsn_burst_loop final_ts prev fin b (p # ps)
        = tsn_burst_loop final_ts (ts_ns p) ?fin ?nb ps" by simp
    from Cons.prems have g: "gaps_exceed (ts_ns p) ps" by simp
    from True have l: "length ?fin + 1 \<le> TSN_MAX_BURSTS" by simp
    have "min (length (p # ps)) (TSN_MAX_BURSTS - (length fin + 1))
        = 1 + min (length ps) (TSN_MAX_BURSTS - (length ?fin + 1))"
      using True by simp
    with Cons.IH [OF g l, of ?nb] show ?thesis unfolding eq by simp
  qed
qed

lemma tsn_detect_bursts_uniform:
  assumes "500000 < d" "t + Suc n * d < 2 ^ 64"
  shows "sum_list (map b_packets (tsn_detect_bursts (map packet_of (uniform_obs t d l (Suc (Suc n))))))
     = 1 + min (Suc n) (TSN_MAX_BURSTS - 1)"
proof -
  let ?all = "map packet_of (uniform_obs t d l (Suc (Suc n)))"
  let ?rest = "map packet_of (uniform_obs (t + d) d l (Suc n))"
  let ?b0 = "\<lparr>start_ns = t, end_ns = 0, bytes = l, b_packets = 1\<rparr>"
  have g: "gaps_exceed t ?rest" by (rule uniform_gaps_exceed [OF assms])
  have "tsn_detect_bursts ?all = tsn_burst_loop (ts_ns (last ?all)) t [] ?b0 ?rest"
    by (simp add: tsn_detect_bursts_def packet_of_def)
  moreover have "sum_list (map b_packets (tsn_burst_loop (ts_ns (last ?all)) t [] ?b0 ?rest))
      = 1 + min (length ?rest) (TSN_MAX_BURSTS - 1)"
    using tsn_burst_loop_gaps_exceed [OF g, where fin = "[]" and b = ?b0
        and final_ts = "ts_ns (last ?all)"]
    by (simp add: TSN_MAX_BURSTS_def del: uniform_obs.simps)
  ultimately show ?thesis
    by (simp only: length_map uniform_obs_length)
qed

text \<open>
  5001 packets 1 ms apart: every packet opens a burst, \<^verbatim>\<open>detect_bursts\<close> of
  \<^verbatim>\<open>tsn-verify.c\<close> leaves its loop when the 5000th burst exists, and the last packet is
  in no burst. \<^verbatim>\<open>detect_bursts\<close> of \<^verbatim>\<open>cbs-estimator.c\<close> counts all 5001.
\<close>

lemma tsn_detect_bursts_drops_packets:
  "sum_list (map b_packets (tsn_detect_bursts (map packet_of (uniform_obs 1000000 1000000 64 5001))))
     = 5000"
proof -
  have n: "(5001::nat) = Suc (Suc 4999)" by simp
  have "sum_list (map b_packets (tsn_detect_bursts
        (map packet_of (uniform_obs 1000000 1000000 64 (Suc (Suc 4999))))))
      = 1 + min (Suc 4999) (TSN_MAX_BURSTS - 1)"
    by (rule tsn_detect_bursts_uniform) simp_all
  then show ?thesis unfolding n by (simp add: TSN_MAX_BURSTS_def del: uniform_obs.simps)
qed

lemma cbs_detect_bursts_keeps_packets:
  "sum_list (map b_packets (bursts (detect_bursts
      (capture zero_tc (uniform_obs 1000000 1000000 64 5001))))) = 5001"
proof -
  have n: "(5001::nat) = Suc (Suc 4999)" by simp
  have "bursts (detect_bursts (capture zero_tc (uniform_obs 1000000 1000000 64 (Suc (Suc 4999)))))
      = map single_burst (map packet_of (uniform_obs 1000000 1000000 64 (Suc (Suc 4999))))"
    by (rule detect_bursts_exceed) (simp_all add: MAX_BURSTS_def)
  moreover have "sum_list (map b_packets (map single_burst ps)) = length ps" for ps
    by (induction ps) (simp_all add: single_burst_def)
  ultimately show ?thesis unfolding n
    by (simp only: length_map uniform_obs_length)
qed

subsection \<open>Shaping classification\<close>

lemma burst_loop_wide:
  "successively wide_gap fin \<Longrightarrow> fin = [] \<or> wide_gap (last fin) b \<Longrightarrow>
   successively wide_gap (burst_loop prev fin b ps)"
proof (induction ps arbitrary: prev fin b)
  case Nil
  then show ?case by (auto simp: successively_append_iff wide_gap_def)
next
  case (Cons p ps)
  show ?case
  proof (cases "sub64 (ts_ns p) prev > BURST_GAP_THRESHOLD_US * 1000 \<and> length fin + 1 < MAX_BURSTS")
    case True
    let ?nb = "\<lparr>start_ns = ts_ns p, end_ns = 0, bytes = len p, b_packets = 1\<rparr>"
    let ?fin = "fin @ [b\<lparr>end_ns := prev\<rparr>]"
    from True have eq: "burst_loop prev fin b (p # ps) = burst_loop (ts_ns p) ?fin ?nb ps"
      by simp
    from Cons.prems have s: "successively wide_gap ?fin"
      by (auto simp: successively_append_iff wide_gap_def)
    from True have w: "?fin = [] \<or> wide_gap (last ?fin) ?nb"
      by (simp add: wide_gap_def BURST_GAP_THRESHOLD_US_def)
    from Cons.IH [OF s w] show ?thesis unfolding eq .
  next
    case False
    let ?b = "b\<lparr>bytes := (bytes b + len p) mod 2 ^ 32, b_packets := (b_packets b + 1) mod 2 ^ 32\<rparr>"
    from False have eq: "burst_loop prev fin b (p # ps) = burst_loop (ts_ns p) fin ?b ps"
      by auto
    from Cons.prems(2) have w: "fin = [] \<or> wide_gap (last fin) ?b"
      by (simp add: wide_gap_def)
    from Cons.IH [OF Cons.prems(1) w] show ?thesis unfolding eq .
  qed
qed

lemma tsn_burst_loop_wide:
  "successively wide_gap fin \<Longrightarrow> fin = [] \<or> wide_gap (last fin) b \<Longrightarrow>
   successively wide_gap (tsn_burst_loop final_ts prev fin b ps)"
proof (induction ps arbitrary: prev fin b)
  case Nil
  then show ?case by (auto simp: successively_append_iff wide_gap_def)
next
  case (Cons p ps)
  show ?case
  proof (cases "length fin + 1 < TSN_MAX_BURSTS")
    case False
    with Cons.prems show ?thesis by (auto simp: successively_append_iff wide_gap_def)
  next
    case cap: True
    show ?thesis
    proof (cases "sub64 (ts_ns p) prev > 500000")
      case True
      let ?nb = "\<lparr>start_ns = ts_ns p, end_ns = 0, bytes = len p, b_packets = 1\<rparr>"
      let ?fin = "fin @ [b\<lparr>end_ns := prev\<rparr>]"
      from True cap have eq: "tsn_burst_loop final_ts prev fin b (p # ps)
          = tsn_burst_loop final_ts (ts_ns p) ?fin ?nb ps" by simp
      from Cons.prems have s: "successively wide_gap ?fin"
        by (auto simp: successively_append_iff wide_gap_def)
      from True have w: "?fin = [] \<or> wide_gap (last ?fin) ?nb"
        by (simp add: wide_gap_def)
      from Cons.IH [OF s w] show ?thesis unfolding eq .
    next
      case False
      let ?b = "b\<lparr>bytes := (bytes b + len p) mod 2 ^ 32, b_packets := (b_packets b + 1) mod 2 ^ 32\<rparr>"
      from False cap have eq: "tsn_burst_loop final_ts prev fin b (p # ps)
          = tsn_burst_loop final_ts (ts_ns p) fin ?b ps" by simp
      from Cons.prems(2) have w: "fin = [] \<or> wide_gap (last fin) ?b"
        by (simp add: wide_gap_def)
      from Cons.IH [OF Cons.prems(1) w] show ?thesis unfolding eq .
    qed
  qed
qed

lemma tsn_detect_bursts_wide: "successively wide_gap (tsn_detect_bursts pkts)"
proof (cases pkts)
  case Nil
  then show ?thesis by (simp add: tsn_detect_bursts_def)
next
  case (Cons p0 rest)
  note c0 = this
  show ?thesis
  proof (cases rest)
    case Nil
    with c0 show ?thesis by (simp add: tsn_detect_bursts_def)
  next
    case (Cons p1 ps)
    let ?b0 = "\<lparr>start_ns = ts_ns p0, end_ns = 0, bytes = len p0, b_packets = 1\<rparr>"
    from c0 Cons have "tsn_detect_bursts pkts
        = tsn_burst_loop (ts_ns (last pkts)) (ts_ns p0) [] ?b0 (p1 # ps)"
      by (simp add: tsn_detect_bursts_def del: tsn_burst_loop.simps)
    moreover have "successively wide_gap (tsn_burst_loop (ts_ns (last pkts)) (ts_ns p0) [] ?b0 (p1 # ps))"
      by (rule tsn_burst_loop_wide) simp_all
    ultimately show ?thesis by (simp only:)
  qed
qed

lemma burst_stats_gap:
  "successively wide_gap bs \<Longrightarrow>
   tg + 500 * real (length bs - 1) \<le> fst (snd (burst_stats tb tg mb bs))"
proof (induction tb tg mb bs rule: burst_stats.induct)
  case (1 tb tg mb)
  then show ?case by simp
next
  case (2 tb tg mb b)
  then show ?case by simp
next
  case (3 tb tg mb b b' bs)
  let ?tb = "tb + real (sub64 (end_ns b) (start_ns b)) / 1000"
  let ?tg = "tg + real (sub64 (start_ns b') (end_ns b)) / 1000"
  let ?mb = "if real (bytes b) > mb then real (bytes b) else mb"
  from "3.prems" have w: "500000 < sub64 (start_ns b') (end_ns b)"
    and s: "successively wide_gap (b' # bs)" by (simp_all add: wide_gap_def)
  from w have "500000 < real (sub64 (start_ns b') (end_ns b))" by simp
  then have g: "tg + 500 \<le> ?tg" by simp
  have "?tg + 500 * real (length (b' # bs) - 1) \<le> fst (snd (burst_stats ?tb ?tg ?mb (b' # bs)))"
    by (rule "3.IH" [OF s])
  with g have "tg + 500 + 500 * real (length bs) \<le> fst (snd (burst_stats ?tb ?tg ?mb (b' # bs)))"
    by simp
  then show ?case by (simp add: algebra_simps)
qed

lemma mean_gap_wide:
  assumes "successively wide_gap bs" "3 < length bs"
  shows "100 < mean_gap_us bs"
proof -
  obtain tb tg mb where st: "burst_stats 0 0 0 bs = (tb, tg, mb)"
    by (cases "burst_stats 0 0 0 bs") auto
  from burst_stats_gap [OF assms(1), of 0 0 0] st
  have "500 * real (length bs - 1) \<le> tg" by simp
  moreover from assms(2) have "0 < real (length bs - 1)" by simp
  ultimately have "500 \<le> tg / real (length bs - 1)"
    by (simp add: pos_le_divide_eq)
  with assms(2) st show ?thesis by (simp add: mean_gap_us_def)
qed

lemma burst_stats_total:
  "fst (burst_stats tb tg mb bs)
     = fold (\<lambda>b s. s + real (sub64 (end_ns b) (start_ns b)) / 1000) bs tb"
  by (induction tb tg mb bs rule: burst_stats.induct) simp_all

lemma tsn_analyze_cbs_run:
  assumes "10 \<le> length (packets tc)" "0 < total_duration_s tc"
  shows "is_shaped (tsn_analyze_cbs tc)
           \<longleftrightarrow> burst_ratio (tsn_analyze_cbs tc) < 0.85 \<and> length (bursts tc) > 3"
    and "burst_ratio (tsn_analyze_cbs tc)
           = fst (burst_stats 0 0 0 (bursts tc)) / (total_duration_s tc * 1000000)"
  using assms by (simp_all add: tsn_analyze_cbs_def Let_def burst_stats_total)

text \<open>
  C6. For a class with at least 10 observations, at least 1 burst and a positive observed
  duration, \<^verbatim>\<open>analyze_cbs\<close> of \<^verbatim>\<open>cbs-estimator.c\<close> sets \<^verbatim>\<open>is_shaped\<close> to the
  conjunction of \<^verbatim>\<open>avg_gap_duration_us > 100\<close>, \<^verbatim>\<open>burst_count > 3\<close> and
  \<^verbatim>\<open>burst_ratio < 0.85\<close>, where \<^verbatim>\<open>avg_gap_duration_us\<close> is the mean gap between the
  bursts, and the report lists the class with confidence "high" when shaped and "low"
  otherwise. \<^verbatim>\<open>analyze_cbs\<close> of \<^verbatim>\<open>tsn-verify.c\<close> tests only the burst count and the
  burst ratio; on the bursts of its own segmenter every gap exceeds 500 us, so that its
  classification equals the same conjunction.
\<close>

theorem C6_shaped:
  "(10 \<le> length (packets tc) \<and> 1 \<le> length (bursts tc) \<and> 0 < total_duration_s tc \<longrightarrow>
      (is_shaped (analyze_cbs tc) \<longleftrightarrow>
         avg_gap_duration_us (analyze_cbs tc) > 100 \<and>
         length (bursts (analyze_cbs tc)) > 3 \<and>
         burst_ratio (analyze_cbs tc) < 0.85) \<and>
      avg_gap_duration_us (analyze_cbs tc) = mean_gap_us (bursts tc) \<and>
      confidence (cbs_config_of link i (analyze_cbs tc))
        = (if is_shaped (analyze_cbs tc) then ''high'' else ''low'') \<and>
      (\<forall>tcd. i < MAX_TC \<and> tcd i = analyze_cbs tc \<longrightarrow>
         cbs_config_of link i (analyze_cbs tc) \<in> set (snd (print_results_json tcd link)))) \<and>
   (10 \<le> length (packets tc') \<and> 0 < total_duration_s tc' \<and>
    bursts tc' = tsn_detect_bursts (packets tc') \<longrightarrow>
      (is_shaped (tsn_analyze_cbs tc') \<longleftrightarrow>
         mean_gap_us (bursts tc') > 100 \<and>
         length (bursts tc') > 3 \<and>
         burst_ratio (tsn_analyze_cbs tc') < 0.85))"
proof (intro conjI impI)
  assume pre: "10 \<le> length (packets tc) \<and> 1 \<le> length (bursts tc) \<and> 0 < total_duration_s tc"
  obtain tb tg mb where st: "burst_stats 0 0 0 (bursts tc) = (tb, tg, mb)"
    by (cases "burst_stats 0 0 0 (bursts tc)") auto
  from pre have p: "10 \<le> length (packets tc)" "1 \<le> length (bursts tc)" "0 < total_duration_s tc"
    by simp_all
  note run = analyze_cbs_run [OF p st]
  show "is_shaped (analyze_cbs tc) \<longleftrightarrow>
         avg_gap_duration_us (analyze_cbs tc) > 100 \<and>
         length (bursts (analyze_cbs tc)) > 3 \<and>
         burst_ratio (analyze_cbs tc) < 0.85"
    by (simp only: run(3) run(4))
  show "avg_gap_duration_us (analyze_cbs tc) = mean_gap_us (bursts tc)"
    by (simp add: run(2) mean_gap_us_def st)
  show "confidence (cbs_config_of link i (analyze_cbs tc))
        = (if is_shaped (analyze_cbs tc) then ''high'' else ''low'')"
    by (simp add: cbs_config_of_def Let_def)
  show "\<forall>tcd. i < MAX_TC \<and> tcd i = analyze_cbs tc \<longrightarrow>
         cbs_config_of link i (analyze_cbs tc) \<in> set (snd (print_results_json tcd link))"
  proof (intro allI impI)
    fix tcd assume a: "i < MAX_TC \<and> tcd i = analyze_cbs tc"
    with p(1) have "i \<in> set (printed_classes tcd)"
      by (simp add: printed_classes_iff analyze_cbs_packets)
    then have "cbs_config_of link i (tcd i) \<in> set (snd (print_results_json tcd link))"
      by (simp add: print_results_json_def)
    with a show "cbs_config_of link i (analyze_cbs tc) \<in> set (snd (print_results_json tcd link))"
      by simp
  qed
next
  assume pre: "10 \<le> length (packets tc') \<and> 0 < total_duration_s tc' \<and>
    bursts tc' = tsn_detect_bursts (packets tc')"
  then have p: "10 \<le> length (packets tc')" "0 < total_duration_s tc'" by simp_all
  from pre have w: "successively wide_gap (bursts tc')"
    by (simp add: tsn_detect_bursts_wide)
  have "100 < mean_gap_us (bursts tc')" if "3 < length (bursts tc')"
    by (rule mean_gap_wide [OF w that])
  with tsn_analyze_cbs_run(1) [OF p]
  show "is_shaped (tsn_analyze_cbs tc') \<longleftrightarrow>
         mean_gap_us (bursts tc') > 100 \<and>
         length (bursts tc') > 3 \<and>
         burst_ratio (tsn_analyze_cbs tc') < 0.85"
    by blast
qed

text \<open>The theorem at a shaped class; a class of evenly spaced packets is not shaped.\<close>

theorem C6_shaped_witness:
  "is_shaped (analyze_cbs shaped_input) \<and>
   confidence (cbs_config_of 100000000 0 (analyze_cbs shaped_input)) = ''high'' \<and>
   is_shaped (tsn_analyze_cbs shaped_input) \<and>
   \<not> is_shaped (analyze_class (capture zero_tc (uniform_obs 1000000 100000 64 1000)))"
proof -
  have d: "total_duration_s shaped_input = 68 / 10000"
    by (simp add: shaped_input_eq zero_tc_def total_duration_s_def sub64_le)
  have p: "10 \<le> length (packets shaped_input)" "1 \<le> length (bursts shaped_input)"
    by (simp_all add: shaped_input_eq zero_tc_def shaped_obs_def)
  from d have q: "0 < total_duration_s shaped_input" by simp
  have st: "burst_stats 0 0 0 (bursts shaped_input) = (800, 6000, 300)"
    by (simp add: shaped_input_eq zero_tc_def sub64_le)
  have n: "length (bursts shaped_input) = 4"
    by (simp add: shaped_input_eq zero_tc_def)
  have t: "bursts shaped_input = tsn_detect_bursts (packets shaped_input)"
    by (simp add: shaped_input_eq zero_tc_def shaped_obs_def packet_of_def
        tsn_detect_bursts_def sub64_def TSN_MAX_BURSTS_def)
  note run = analyze_cbs_run [OF p q st]
  have g: "avg_gap_duration_us (analyze_cbs shaped_input) > 100"
    "length (bursts (analyze_cbs shaped_input)) > 3"
    "burst_ratio (analyze_cbs shaped_input) < 0.85"
    by (simp_all add: run(1,2,4) n d)
  have h: "mean_gap_us (bursts shaped_input) > 100"
    "length (bursts shaped_input) > 3"
    "burst_ratio (tsn_analyze_cbs shaped_input) < 0.85"
    by (simp_all add: mean_gap_us_def st n tsn_analyze_cbs_run(2) [OF p(1) q] d)
  from C6_shaped [where tc = shaped_input and tc' = shaped_input and link = 100000000 and i = 0] p q t g h
  have "is_shaped (analyze_cbs shaped_input)"
    and "confidence (cbs_config_of 100000000 0 (analyze_cbs shaped_input)) = ''high''"
    and "is_shaped (tsn_analyze_cbs shaped_input)"
    by simp_all
  moreover have "\<not> is_shaped (analyze_class (capture zero_tc (uniform_obs 1000000 100000 64 1000)))"
  proof -
    have n: "(1000::nat) = Suc (Suc 998)" by simp
    show ?thesis unfolding n
      by (rule analyze_within(3)) (simp_all add: MAX_PACKETS_def)
  qed
  ultimately show ?thesis by blast
qed

end
